theory Spec2Isabelle
  imports Complex_Main "HOL-Library.Sublist" "HOL-Library.Char_ord" "HOL-Library.List_Lexorder"
begin

section \<open>The table: a pandas DataFrame\<close>

text \<open>
  \<^verbatim>\<open>prepare_customers_data.py\<close> works on a pandas DataFrame: an ordered list of labelled
  columns, each with a dtype and one cell per row. A cell is missing (\<open>NaN\<close>/\<open>None\<close>),
  a number or a text. Numbers are the reals: the rounding of 64-bit floats is not
  modelled, and \<open>NaN\<close> is the missing cell \<open>NA\<close>. The dtype decides what
  \<^verbatim>\<open>select_dtypes\<close> returns: \<open>Number\<close> for \<^verbatim>\<open>include=["number"]\<close> (int64, float64),
  \<open>Object\<close> for \<^verbatim>\<open>include=["object"]\<close> (text), \<open>Other\<close> for every dtype that is
  neither (bool, datetime64, category, ...).
\<close>

datatype cell = NA | Num real | Str string

datatype dtype = Number | Object | Other

record column =
  label :: string
  dtype :: dtype
  cells :: "cell list"

type_synonym frame = "column list"

datatype error = KeyError | TypeError

text \<open>\<^verbatim>\<open>len(df)\<close>: the number of rows. A frame without columns has no rows.\<close>

definition nrows :: "frame \<Rightarrow> nat" where
  "nrows F = (case F of [] \<Rightarrow> 0 | c # _ \<Rightarrow> length (cells c))"

text \<open>The rows of a frame, in index order: row \<open>i\<close> holds cell \<open>i\<close> of every column.\<close>

fun rows_of :: "frame \<Rightarrow> cell list list" where
  "rows_of [] = []"
| "rows_of [c] = map (\<lambda>x. [x]) (cells c)"
| "rows_of (c # F) = map2 (#) (cells c) (rows_of F)"

text \<open>Every column has one cell per row.\<close>

definition rectangular :: "frame \<Rightarrow> bool" where
  "rectangular F = list_all (\<lambda>c. length (cells c) = nrows F) F"

text \<open>A numeric column holds numbers and \<open>NaN\<close>, an object column texts and missing cells.\<close>

fun cell_ok :: "dtype \<Rightarrow> cell \<Rightarrow> bool" where
  "cell_ok Number (Str s) = False"
| "cell_ok Object (Num x) = False"
| "cell_ok d x = True"

definition well_typed :: "frame \<Rightarrow> bool" where
  "well_typed F = list_all (\<lambda>c. list_all (cell_ok (dtype c)) (cells c)) F"

definition valid_frame :: "frame \<Rightarrow> bool" where
  "valid_frame F = (rectangular F \<and> well_typed F)"

text \<open>\<^verbatim>\<open>df[mask]\<close> with a boolean mask: the rows whose mask entry is true, in order.\<close>

fun keep :: "bool list \<Rightarrow> 'a list \<Rightarrow> 'a list" where
  "keep (b # bs) (x # xs) = (if b then x # keep bs xs else keep bs xs)"
| "keep bs xs = []"

definition select_rows :: "bool list \<Rightarrow> frame \<Rightarrow> frame" where
  "select_rows bs F = map (\<lambda>c. c\<lparr>cells := keep bs (cells c)\<rparr>) F"

section \<open>remove\_duplicates\<close>

text \<open>
  \<^verbatim>\<open>df.duplicated()\<close> (\<^verbatim>\<open>keep='first'\<close>) scans the rows in order and marks a row that
  equals a row already seen; missing cells compare equal to each other.
  \<^verbatim>\<open>df.drop_duplicates()\<close> is \<^verbatim>\<open>df[~df.duplicated()]\<close>.
\<close>

fun duplicated_from :: "'a list \<Rightarrow> 'a list \<Rightarrow> bool list" where
  "duplicated_from seen [] = []"
| "duplicated_from seen (r # rs) = (r \<in> set seen) # duplicated_from (r # seen) rs"

definition duplicated :: "frame \<Rightarrow> bool list" where
  "duplicated F = duplicated_from [] (rows_of F)"

definition drop_duplicates :: "frame \<Rightarrow> frame" where
  "drop_duplicates F = select_rows (map Not (duplicated F)) F"

text \<open>
  \<^verbatim>\<open>remove_duplicates\<close> returns the frame without duplicates;
  \<open>remove_duplicates_logged\<close> is the number its log message reports,
  \<^verbatim>\<open>initial_count - len(df_cleaned)\<close>.
\<close>

definition remove_duplicates :: "frame \<Rightarrow> frame" where
  "remove_duplicates df = drop_duplicates df"

definition remove_duplicates_logged :: "frame \<Rightarrow> int" where
  "remove_duplicates_logged df =
     (let initial_count = int (nrows df);
          df_cleaned = drop_duplicates df
      in initial_count - int (nrows df_cleaned))"

section \<open>handle\_missing\_values\<close>

text \<open>
  \<^verbatim>\<open>df.select_dtypes(include=[d]).columns\<close>: the labels of the columns of dtype \<open>d\<close>, in
  column order. \<^verbatim>\<open>df[col]\<close> finds the columns that carry the label: one column is a
  Series, several (pandas allows repeated labels) are a DataFrame.
\<close>

definition select_dtypes :: "dtype \<Rightarrow> frame \<Rightarrow> string list" where
  "select_dtypes d F = map label (filter (\<lambda>c. dtype c = d) F)"

definition getitem :: "string \<Rightarrow> frame \<Rightarrow> column list" where
  "getitem col F = filter (\<lambda>c. label c = col) F"

text \<open>The non-missing numbers of a numeric Series and the non-missing texts of an object one.\<close>

fun numbers :: "cell list \<Rightarrow> real list" where
  "numbers [] = []"
| "numbers (Num x # cs) = x # numbers cs"
| "numbers (c # cs) = numbers cs"

fun texts :: "cell list \<Rightarrow> string list" where
  "texts [] = []"
| "texts (Str s # cs) = s # texts cs"
| "texts (c # cs) = texts cs"

definition mean :: "real list \<Rightarrow> real" where
  "mean xs = sum_list xs / real (length xs)"

text \<open>\<^verbatim>\<open>Series.mean()\<close> skips missing cells; it is \<open>NaN\<close> when no value is left.\<close>

definition series_mean :: "cell list \<Rightarrow> cell" where
  "series_mean cs = (let xs = numbers cs in if xs = [] then NA else Num (mean xs))"

text \<open>
  \<^verbatim>\<open>Series.mode()\<close> drops missing cells and returns the most frequent values, sorted
  ascending (texts in lexicographic order of their characters); it is empty when no value
  is left.
\<close>

definition series_mode :: "cell list \<Rightarrow> string list" where
  "series_mode cs =
     (let vs = texts cs;
          top = fold max (map (count_list vs) vs) 0
      in sort (remdups (filter (\<lambda>v. count_list vs v = top) vs)))"

text \<open>\<^verbatim>\<open>Series.fillna(v)\<close>: every missing cell becomes \<open>v\<close>; filling with \<open>NaN\<close> changes nothing.\<close>

definition fillna :: "cell \<Rightarrow> cell list \<Rightarrow> cell list" where
  "fillna v cs = map (\<lambda>x. if x = NA then v else x) cs"

text \<open>
  The fill is in place (\<^verbatim>\<open>inplace=True\<close> on \<^verbatim>\<open>df[col]\<close>, as pandas before 3.0 without
  copy-on-write performs it): the column behind the label gets the new cells.
\<close>

definition setitem :: "string \<Rightarrow> cell list \<Rightarrow> frame \<Rightarrow> frame" where
  "setitem col cs F = map (\<lambda>c. if label c = col then c\<lparr>cells := cs\<rparr> else c) F"

text \<open>A \<^verbatim>\<open>for\<close> loop over labels that updates the frame and stops at the first exception.\<close>

fun for_each :: "('a \<Rightarrow> 's \<Rightarrow> error + 's) \<Rightarrow> 'a list \<Rightarrow> 's \<Rightarrow> error + 's" where
  "for_each body [] s = Inr s"
| "for_each body (x # xs) s =
     (case body x s of Inl e \<Rightarrow> Inl e | Inr s' \<Rightarrow> for_each body xs s')"

text \<open>
  The body of the first loop. When the label is repeated, \<^verbatim>\<open>df[col]\<close> is a DataFrame,
  its mean a Series, and formatting it with \<^verbatim>\<open>:.2f\<close> for the log raises TypeError.
\<close>

definition fill_mean :: "string \<Rightarrow> frame \<Rightarrow> error + frame" where
  "fill_mean col df =
     (case getitem col df of
        [s] \<Rightarrow> (let mean_value = series_mean (cells s)
                in Inr (setitem col (fillna mean_value (cells s)) df))
      | _ \<Rightarrow> Inl TypeError)"

text \<open>
  The body of the second loop. \<^verbatim>\<open>mode()[0]\<close> raises KeyError when the mode is empty
  (no non-missing cell), and also when the label is repeated (\<^verbatim>\<open>df[col].mode()\<close> is then
  a DataFrame without a column \<open>0\<close>).
\<close>

definition fill_mode :: "string \<Rightarrow> frame \<Rightarrow> error + frame" where
  "fill_mode col df =
     (case getitem col df of
        [s] \<Rightarrow> (case series_mode (cells s) of
                  [] \<Rightarrow> Inl KeyError
                | mode_value # _ \<Rightarrow> Inr (setitem col (fillna (Str mode_value) (cells s)) df))
      | _ \<Rightarrow> Inl KeyError)"

definition handle_missing_values :: "frame \<Rightarrow> error + frame" where
  "handle_missing_values df =
     (let numeric_cols = select_dtypes Number df
      in case for_each fill_mean numeric_cols df of
           Inl e \<Rightarrow> Inl e
         | Inr df1 \<Rightarrow>
             (let categorical_cols = select_dtypes Object df1
              in for_each fill_mode categorical_cols df1))"

section \<open>remove\_outliers\<close>

text \<open>Population variance and standard deviation (\<^verbatim>\<open>ddof=0\<close>).\<close>

definition pvariance :: "real list \<Rightarrow> real" where
  "pvariance xs = mean (map (\<lambda>x. (x - mean xs)\<^sup>2) xs)"

definition pstd :: "real list \<Rightarrow> real" where
  "pstd xs = sqrt (pvariance xs)"

text \<open>
  \<^verbatim>\<open>scipy.stats.zscore\<close> along a column, \<^verbatim>\<open>nan_policy='propagate'\<close>: a z-score is a real
  or \<open>NaN\<close> (\<open>None\<close>). A missing cell makes the mean, and so every z-score of the column,
  \<open>NaN\<close>; a column of standard deviation 0 divides 0 by 0, which is \<open>NaN\<close> too.
\<close>

fun is_Num :: "cell \<Rightarrow> bool" where
  "is_Num (Num x) = True"
| "is_Num c = False"

definition zscore :: "cell list \<Rightarrow> real option list" where
  "zscore cs =
     (if list_all is_Num cs
      then (let xs = numbers cs; mu = mean xs; sd = pstd xs
            in map (\<lambda>x. if sd = 0 then None else Some ((x - mu) / sd)) xs)
      else map (\<lambda>c. None) cs)"

text \<open>\<^verbatim>\<open>abs(z) < z_threshold\<close>: a comparison with \<open>NaN\<close> is false.\<close>

fun below :: "real \<Rightarrow> real option \<Rightarrow> bool" where
  "below t None = False"
| "below t (Some z) = (\<bar>z\<bar> < t)"

text \<open>
  \<^verbatim>\<open>.all(axis=1)\<close> of a boolean matrix given by its columns, over \<open>n\<close> rows: a row is
  true when all its entries are; with no column, every row is true.
\<close>

definition all_axis1 :: "nat \<Rightarrow> bool list list \<Rightarrow> bool list" where
  "all_axis1 n cols = foldr (map2 (\<and>)) cols (replicate n True)"

text \<open>\<^verbatim>\<open>df[labels]\<close>: for each label in turn, the columns that carry it.\<close>

definition getitems :: "string list \<Rightarrow> frame \<Rightarrow> frame" where
  "getitems cols F = concat (map (\<lambda>col. getitem col F) cols)"

text \<open>
  A numeric label shared with a column of another dtype puts that column into the array
  handed to \<^verbatim>\<open>zscore\<close>, whose arithmetic on text raises TypeError.
\<close>

definition remove_outliers :: "real \<Rightarrow> frame \<Rightarrow> error + frame" where
  "remove_outliers z_threshold df =
     (let numeric_cols = select_dtypes Number df;
          sub = getitems numeric_cols df
      in if list_ex (\<lambda>c. dtype c \<noteq> Number) sub then Inl TypeError
         else (let z = map (\<lambda>c. zscore (cells c)) sub;
                   flags = map (map (below z_threshold)) z
               in Inr (select_rows (all_axis1 (nrows df) flags) df)))"

definition default_z_threshold :: real where
  "default_z_threshold = 3"

section \<open>main\<close>

text \<open>
  \<^verbatim>\<open>str.strip()\<close> removes leading and trailing whitespace; the ASCII whitespace
  characters are modelled (codes 9 to 13, 28 to 32).
\<close>

definition is_space :: "char \<Rightarrow> bool" where
  "is_space c = (let n = (of_char c :: nat) in (9 \<le> n \<and> n \<le> 13) \<or> (28 \<le> n \<and> n \<le> 32))"

definition strip :: "string \<Rightarrow> string" where
  "strip s = rev (dropWhile is_space (rev (dropWhile is_space s)))"

text \<open>\<^verbatim>\<open>df.columns = df.columns.str.strip()\<close>\<close>

definition strip_columns :: "frame \<Rightarrow> frame" where
  "strip_columns df = map (\<lambda>c. c\<lparr>label := strip (label c)\<rparr>) df"

text \<open>
  What \<^verbatim>\<open>main\<close> does to the frame between reading and saving it: the labels are
  trimmed, then the three cleaning steps run in order, the last with the default
  threshold. An exception of a step ends the run.
\<close>

definition main :: "frame \<Rightarrow> error + frame" where
  "main df0 =
     (let df = strip_columns df0;
          df = remove_duplicates df
      in case handle_missing_values df of
           Inl e \<Rightarrow> Inl e
         | Inr df \<Rightarrow> remove_outliers default_z_threshold df)"

section \<open>Closed forms used in the proofs\<close>

text \<open>
  Both loop bodies have one shape: look the label up, compute a statistic of the cells,
  fill the missing cells with it. \<open>fill_step\<close> is that shape, \<open>filled\<close> what it does to
  the column, and \<open>imputed\<close> what the two loops together do to a column of each dtype.
\<close>

definition fill_step ::
  "(cell list \<Rightarrow> error + cell) \<Rightarrow> error \<Rightarrow> string \<Rightarrow> frame \<Rightarrow> error + frame" where
  "fill_step stat e col F =
     (case getitem col F of
        [s] \<Rightarrow> (case stat (cells s) of
                  Inl e' \<Rightarrow> Inl e'
                | Inr v \<Rightarrow> Inr (setitem col (fillna v (cells s)) F))
      | _ \<Rightarrow> Inl e)"

definition filled :: "(cell list \<Rightarrow> error + cell) \<Rightarrow> column \<Rightarrow> column" where
  "filled stat c =
     (case stat (cells c) of Inl e \<Rightarrow> c | Inr v \<Rightarrow> c\<lparr>cells := fillna v (cells c)\<rparr>)"

definition mean_stat :: "cell list \<Rightarrow> error + cell" where
  "mean_stat cs = Inr (series_mean cs)"

definition mode_stat :: "cell list \<Rightarrow> error + cell" where
  "mode_stat cs = (case series_mode cs of [] \<Rightarrow> Inl KeyError | m # _ \<Rightarrow> Inr (Str m))"

definition imputed :: "column \<Rightarrow> column" where
  "imputed c =
     (case dtype c of
        Number \<Rightarrow> filled mean_stat c
      | Object \<Rightarrow> filled mode_stat c
      | Other \<Rightarrow> c)"

section \<open>Example tables\<close>

text \<open>Scenario 1 of the specification: two equal rows and a third one.\<close>

definition scenario1 :: frame where
  "scenario1 =
     [\<lparr>label = ''a'', dtype = Number, cells = [Num 1, Num 1, Num 2]\<rparr>,
      \<lparr>label = ''b'', dtype = Object, cells = [Str ''x'', Str ''x'', Str ''y'']\<rparr>]"

text \<open>Scenario 2: a numeric column with one missing cell.\<close>

definition scenario2 :: frame where
  "scenario2 = [\<lparr>label = ''a'', dtype = Number, cells = [Num 1, Num 2, NA, Num 3]\<rparr>]"

text \<open>Scenario 3: a text column with one missing cell and a single most frequent value.\<close>

definition scenario3 :: frame where
  "scenario3 =
     [\<lparr>label = ''c'', dtype = Object, cells = [Str ''x'', Str ''x'', NA, Str ''y'']\<rparr>]"

text \<open>A text column in which two values are equally frequent, the larger one first.\<close>

definition tie_table :: frame where
  "tie_table = [\<lparr>label = ''c'', dtype = Object, cells = [Str ''y'', Str ''x'', NA]\<rparr>]"

text \<open>A column that is neither numeric nor of object dtype, such as a datetime64 column.\<close>

definition datetime_table :: frame where
  "datetime_table =
     [\<lparr>label = ''joined'', dtype = Other, cells = [Str ''2024-01-05'', NA]\<rparr>]"

text \<open>A numeric, a text and a datetime column, each with a missing cell.\<close>

definition mixed_table :: frame where
  "mixed_table =
     [\<lparr>label = ''a'', dtype = Number, cells = [Num 1, NA, Num 2, Num 2]\<rparr>,
      \<lparr>label = ''c'', dtype = Object, cells = [Str ''x'', Str ''x'', NA, Str ''y'']\<rparr>,
      \<lparr>label = ''joined'', dtype = Other, cells = [NA, Str ''2024-01-05'', NA, NA]\<rparr>]"

text \<open>Scenario 4: four values close together and one far away.\<close>

definition scenario4 :: frame where
  "scenario4 =
     [\<lparr>label = ''v'', dtype = Number, cells = [Num 10, Num 12, Num 11, Num 13, Num 1000]\<rparr>]"

text \<open>Scenario 5: a constant numeric column.\<close>

definition scenario5 :: frame where
  "scenario5 = [\<lparr>label = ''k'', dtype = Number, cells = [Num 5, Num 5, Num 5, Num 5]\<rparr>]"

text \<open>A numeric column whose z-scores are all 1 in size, alone and beside a constant column.\<close>

definition varying_table :: frame where
  "varying_table = [\<lparr>label = ''v'', dtype = Number, cells = [Num 1, Num 3, Num 1, Num 3]\<rparr>]"

definition constant_table :: frame where
  "constant_table =
     [\<lparr>label = ''v'', dtype = Number, cells = [Num 1, Num 3, Num 1, Num 3]\<rparr>,
      \<lparr>label = ''k'', dtype = Number, cells = [Num 5, Num 5, Num 5, Num 5]\<rparr>]"

text \<open>
  A numeric column of mean 1 and standard deviation 2 (the last z-score is 2, the
  others -1/2) beside a text column.
\<close>

definition outlier_table :: frame where
  "outlier_table =
     [\<lparr>label = ''v'', dtype = Number, cells = [Num 0, Num 0, Num 0, Num 0, Num 5]\<rparr>,
      \<lparr>label = ''n'', dtype = Object,
         cells = [Str ''a'', Str ''b'', Str ''c'', Str ''d'', Str ''e'']\<rparr>]"

text \<open>A table without numeric columns.\<close>

definition text_table :: frame where
  "text_table =
     [\<lparr>label = ''c'', dtype = Object, cells = [Str ''x'', NA, Str ''y'']\<rparr>,
      \<lparr>label = ''joined'', dtype = Other, cells = [Str ''2024-01-05'', NA, NA]\<rparr>]"

text \<open>
  A raw table as \<^verbatim>\<open>main\<close> may read it: labels with surrounding blanks, a repeated row
  and a last row of missing cells.
\<close>

definition raw_table :: frame where
  "raw_table =
     [\<lparr>label = '' v '', dtype = Number,
         cells = [Num 0, Num 0, Num 0, Num 0, Num 0, Num 5, NA]\<rparr>,
      \<lparr>label = ''n  '', dtype = Object,
         cells = [Str ''a'', Str ''a'', Str ''b'', Str ''c'', Str ''d'', Str ''e'', NA]\<rparr>]"

section \<open>Rows, masks and row selection\<close>

lemma keep_map: "keep bs (map f xs) = map f (keep bs xs)"
  by (induction bs xs rule: keep.induct) simp_all

lemma keep_zip: "keep bs (zip xs ys) = zip (keep bs xs) (keep bs ys)"
proof (induction bs arbitrary: xs ys)
  case Nil
  then show ?case by simp
next
  case (Cons b bs)
  show ?case
  proof (cases xs)
    case Nil
    then show ?thesis by simp
  next
    case xs: (Cons x xs')
    show ?thesis
    proof (cases ys)
      case Nil
      then show ?thesis by simp
    next
      case ys: (Cons y ys')
      show ?thesis using Cons.IH [of xs' ys'] by (simp add: xs ys)
    qed
  qed
qed

lemma rows_of_select_rows: "rows_of (select_rows bs F) = keep bs (rows_of F)"
proof (induction F rule: rows_of.induct)
  case 1
  then show ?case by (simp add: select_rows_def)
next
  case (2 c)
  then show ?case by (simp add: select_rows_def keep_map)
next
  case (3 c v va)
  then show ?case by (simp add: select_rows_def keep_map keep_zip)
qed

lemma subseq_keep: "subseq (keep bs xs) xs"
  by (induction bs xs rule: keep.induct) auto

lemma length_keep_cong: "length xs = length ys \<Longrightarrow> length (keep bs xs) = length (keep bs ys)"
proof (induction bs arbitrary: xs ys)
  case Nil
  then show ?case by simp
next
  case (Cons b bs)
  then show ?case by (cases xs; cases ys) auto
qed

lemma keep_map_upt:
  "keep (map P [0..<length xs]) xs = map (\<lambda>i. xs ! i) (filter P [0..<length xs])"
proof (induction xs arbitrary: P)
  case Nil
  then show ?case by simp
next
  case (Cons x xs)
  have "[0..<length (x # xs)] = 0 # map Suc [0..<length xs]"
    by (simp add: upt_conv_Cons map_Suc_upt del: upt_Suc)
  then show ?case using Cons.IH [of "P \<circ> Suc"]
    by (simp add: filter_map comp_def del: upt_Suc)
qed

lemma map_label_select_rows: "map label (select_rows bs F) = map label F"
  by (simp add: select_rows_def)

lemma map_dtype_select_rows: "map dtype (select_rows bs F) = map dtype F"
  by (simp add: select_rows_def)

lemma rectangular_Cons:
  "rectangular (c # F) = (\<forall>d\<in>set F. length (cells d) = length (cells c))"
  by (simp add: rectangular_def nrows_def list_all_iff)

lemma rectangular_select_rows: "rectangular F \<Longrightarrow> rectangular (select_rows bs F)"
proof (cases F)
  case Nil
  then show ?thesis by (simp add: select_rows_def rectangular_def)
next
  case (Cons c G)
  assume "rectangular F"
  then have len: "\<forall>d\<in>set G. length (cells d) = length (cells c)"
    using Cons by (simp add: rectangular_Cons)
  have "\<forall>d\<in>set G. length (keep bs (cells d)) = length (keep bs (cells c))"
  proof
    fix d
    assume "d \<in> set G"
    with len have "length (cells d) = length (cells c)" by simp
    then show "length (keep bs (cells d)) = length (keep bs (cells c))"
      by (rule length_keep_cong)
  qed
  then show ?thesis using Cons by (simp add: select_rows_def rectangular_Cons)
qed

lemma length_rows_of: "rectangular F \<Longrightarrow> length (rows_of F) = nrows F"
proof (induction F rule: rows_of.induct)
  case 1
  then show ?case by (simp add: nrows_def)
next
  case (2 c)
  then show ?case by (simp add: nrows_def)
next
  case (3 c v va)
  then have "rectangular (v # va)" and "length (cells v) = length (cells c)"
    by (simp_all add: rectangular_Cons)
  with 3 show ?case by (simp add: nrows_def)
qed

lemma rows_of_nth:
  "rectangular F \<Longrightarrow> i < nrows F \<Longrightarrow> rows_of F ! i = map (\<lambda>c. cells c ! i) F"
proof (induction F rule: rows_of.induct)
  case 1
  then show ?case by (simp add: nrows_def)
next
  case (2 c)
  then show ?case by (simp add: nrows_def)
next
  case (3 c v va)
  then have r: "rectangular (v # va)" and l: "length (cells v) = length (cells c)"
    by (simp_all add: rectangular_Cons)
  from 3 l have i: "i < nrows (v # va)" by (simp add: nrows_def)
  from 3 r i have "rows_of (v # va) ! i = map (\<lambda>c. cells c ! i) (v # va)" by simp
  moreover have "length (rows_of (v # va)) = length (cells c)"
    using length_rows_of [OF r] l by (simp add: nrows_def)
  ultimately show ?case using 3(3) by (simp add: nrows_def)
qed

lemma select_rows_empty: "rectangular F \<Longrightarrow> nrows F = 0 \<Longrightarrow> select_rows bs F = F"
proof -
  assume "rectangular F" and "nrows F = 0"
  then have "\<forall>c\<in>set F. cells c = []"
    by (simp add: rectangular_def list_all_iff)
  then have "map (\<lambda>c. c\<lparr>cells := keep bs (cells c)\<rparr>) F = map (\<lambda>c. c) F"
    by (intro map_cong) simp_all
  then show ?thesis by (simp add: select_rows_def)
qed

section \<open>Duplicate rows\<close>

lemma length_duplicated_from: "length (duplicated_from seen rs) = length rs"
  by (induction rs arbitrary: seen) simp_all

lemma set_keep_fresh:
  "set (keep (map Not (duplicated_from seen rs)) rs) = set rs - set seen"
  by (induction rs arbitrary: seen) auto

lemma distinct_keep_fresh:
  "distinct (keep (map Not (duplicated_from seen rs)) rs)"
  by (induction rs arbitrary: seen) (auto simp: set_keep_fresh)

lemma duplicated_from_upt:
  "duplicated_from seen rs =
     map (\<lambda>i. rs ! i \<in> set seen \<union> set (take i rs)) [0..<length rs]"
proof (induction rs arbitrary: seen)
  case Nil
  then show ?case by simp
next
  case (Cons r rs)
  have "[0..<length (r # rs)] = 0 # map Suc [0..<length rs]"
    by (simp add: upt_conv_Cons map_Suc_upt del: upt_Suc)
  then show ?case using Cons.IH [of "r # seen"]
    by (auto simp add: comp_def simp del: upt_Suc)
qed

lemma rows_of_drop_duplicates:
  "rows_of (drop_duplicates F) =
     map (\<lambda>i. rows_of F ! i)
       (filter (\<lambda>i. rows_of F ! i \<notin> set (take i (rows_of F))) [0..<length (rows_of F)])"
proof -
  have "map Not (duplicated F) =
          map (\<lambda>i. rows_of F ! i \<notin> set (take i (rows_of F))) [0..<length (rows_of F)]"
    by (simp add: duplicated_def duplicated_from_upt [of "[]"] comp_def)
  then show ?thesis
    by (simp add: drop_duplicates_def rows_of_select_rows keep_map_upt)
qed

text \<open>
  Claim C5. \<^verbatim>\<open>remove_duplicates\<close> keeps row \<open>i\<close> exactly when no earlier row equals it,
  so the result holds the first occurrence of every distinct row, in the original
  order: it is a subsequence of the input without repetitions and with the same set of
  rows. The logged count is the number of rows before minus the number of rows after,
  and a table without rows is returned as it is.
\<close>

theorem remove_duplicates_keeps_first_occurrences:
  assumes "rectangular df"
  shows "rows_of (remove_duplicates df) =
           map (\<lambda>i. rows_of df ! i)
             (filter (\<lambda>i. rows_of df ! i \<notin> set (take i (rows_of df))) [0..<nrows df])
         \<and> subseq (rows_of (remove_duplicates df)) (rows_of df)
         \<and> distinct (rows_of (remove_duplicates df))
         \<and> set (rows_of (remove_duplicates df)) = set (rows_of df)
         \<and> remove_duplicates_logged df =
             int (length (rows_of df)) - int (length (rows_of (remove_duplicates df)))
         \<and> (nrows df = 0 \<longrightarrow> remove_duplicates df = df)"
proof -
  have n: "length (rows_of df) = nrows df"
    using assms by (rule length_rows_of)
  have r: "rectangular (drop_duplicates df)"
    using assms by (simp add: drop_duplicates_def rectangular_select_rows)
  have rows: "rows_of (drop_duplicates df) = keep (map Not (duplicated df)) (rows_of df)"
    by (simp add: drop_duplicates_def rows_of_select_rows)
  have 1: "rows_of (remove_duplicates df) =
             map (\<lambda>i. rows_of df ! i)
               (filter (\<lambda>i. rows_of df ! i \<notin> set (take i (rows_of df))) [0..<nrows df])"
    using rows_of_drop_duplicates [of df] n by (simp add: remove_duplicates_def)
  have 2: "subseq (rows_of (remove_duplicates df)) (rows_of df)"
    by (simp add: remove_duplicates_def rows subseq_keep)
  have 3: "distinct (rows_of (remove_duplicates df))"
    by (simp add: remove_duplicates_def rows duplicated_def distinct_keep_fresh)
  have 4: "set (rows_of (remove_duplicates df)) = set (rows_of df)"
    by (simp add: remove_duplicates_def rows duplicated_def set_keep_fresh)
  have 5: "remove_duplicates_logged df =
             int (length (rows_of df)) - int (length (rows_of (remove_duplicates df)))"
    using n length_rows_of [OF r]
    by (simp add: remove_duplicates_logged_def remove_duplicates_def)
  have 6: "nrows df = 0 \<longrightarrow> remove_duplicates df = df"
    using assms by (simp add: remove_duplicates_def drop_duplicates_def select_rows_empty)
  from 1 2 3 4 5 6 show ?thesis by blast
qed

theorem remove_duplicates_scenario1:
  "rectangular scenario1
   \<and> rows_of scenario1 = [[Num 1, Str ''x''], [Num 1, Str ''x''], [Num 2, Str ''y'']]
   \<and> rows_of (remove_duplicates scenario1) = [[Num 1, Str ''x''], [Num 2, Str ''y'']]
   \<and> remove_duplicates_logged scenario1 = 1"
proof -
  have h: "rectangular scenario1"
    by (simp add: scenario1_def rectangular_def nrows_def)
  have rows: "rows_of scenario1 = [[Num 1, Str ''x''], [Num 1, Str ''x''], [Num 2, Str ''y'']]"
    by (simp add: scenario1_def)
  have n: "nrows scenario1 = 3"
    by (simp add: scenario1_def nrows_def)
  have u: "[0..<3] = [0, 1, 2]"
    by code_simp
  show ?thesis
    using h remove_duplicates_keeps_first_occurrences [OF h]
    by (simp add: rows n u)
qed

section \<open>The two fill loops\<close>

lemma fill_mean_step: "fill_mean = fill_step mean_stat TypeError"
  by (intro ext) (simp add: fill_mean_def fill_step_def mean_stat_def split: list.splits)

lemma fill_mode_step: "fill_mode = fill_step mode_stat KeyError"
  by (intro ext) (simp add: fill_mode_def fill_step_def mode_stat_def split: list.splits)

lemma map_label_setitem: "map label (setitem col cs F) = map label F"
  by (simp add: setitem_def)

lemma map_dtype_setitem: "map dtype (setitem col cs F) = map dtype F"
  by (simp add: setitem_def)

lemma length_getitem: "length (getitem l F) = count_list (map label F) l"
  by (induction F) (simp_all add: getitem_def)

lemma getitem_singleton:
  "getitem l F = [s] \<Longrightarrow> c \<in> set F \<Longrightarrow> label c = l \<Longrightarrow> c = s"
proof -
  assume g: "getitem l F = [s]" and c: "c \<in> set F" "label c = l"
  from c have "c \<in> set (getitem l F)" by (simp add: getitem_def)
  with g show "c = s" by simp
qed

lemma fill_step_Inr:
  assumes "fill_step stat e col F = Inr F'"
  shows "length (getitem col F) = 1"
    and "F' = map (\<lambda>c. if label c = col then filled stat c else c) F"
    and "\<forall>c\<in>set F. label c = col \<longrightarrow> (\<exists>v. stat (cells c) = Inr v)"
proof -
  from assms obtain s v where g: "getitem col F = [s]" and v: "stat (cells s) = Inr v"
    and F': "F' = setitem col (fillna v (cells s)) F"
    by (auto simp: fill_step_def split: list.splits sum.splits)
  show "length (getitem col F) = 1" using g by simp
  have s: "\<And>c. c \<in> set F \<Longrightarrow> label c = col \<Longrightarrow> c = s"
    using g by (rule getitem_singleton)
  show "\<forall>c\<in>set F. label c = col \<longrightarrow> (\<exists>v. stat (cells c) = Inr v)"
    using s v by blast
  have "map (\<lambda>c. if label c = col then c\<lparr>cells := fillna v (cells s)\<rparr> else c) F =
        map (\<lambda>c. if label c = col then filled stat c else c) F"
  proof (rule map_cong [OF refl])
    fix c
    assume "c \<in> set F"
    then show "(if label c = col then c\<lparr>cells := fillna v (cells s)\<rparr> else c) =
               (if label c = col then filled stat c else c)"
      using s [of c] v by (auto simp: filled_def)
  qed
  then show "F' = map (\<lambda>c. if label c = col then filled stat c else c) F"
    by (simp add: F' setitem_def)
qed

lemma label_filled [simp]: "label (filled stat c) = label c"
  by (simp add: filled_def split: sum.splits)

lemma dtype_filled [simp]: "dtype (filled stat c) = dtype c"
  by (simp add: filled_def split: sum.splits)

lemma fill_step_success:
  assumes "getitem col F = [s]" and "stat (cells s) = Inr v"
  shows "fill_step stat e col F = Inr (map (\<lambda>c. if label c = col then filled stat c else c) F)"
proof -
  have "fill_step stat e col F = Inr (setitem col (fillna v (cells s)) F)"
    using assms by (simp add: fill_step_def)
  then show ?thesis using fill_step_Inr(2) by metis
qed

lemma for_each_fill_labels:
  "for_each (fill_step stat e) cols F = Inr F' \<Longrightarrow>
     map label F' = map label F \<and> map dtype F' = map dtype F"
proof (induction cols arbitrary: F)
  case Nil
  then show ?case by simp
next
  case (Cons col cols)
  from Cons.prems obtain F1 where 1: "fill_step stat e col F = Inr F1"
    and 2: "for_each (fill_step stat e) cols F1 = Inr F'"
    by (auto split: sum.splits)
  have "map label F1 = map label F \<and> map dtype F1 = map dtype F"
    using fill_step_Inr(2) [OF 1] by (simp add: comp_def)
  with Cons.IH [OF 2] show ?case by simp
qed

lemma for_each_fill_unique:
  "for_each (fill_step stat e) cols F = Inr F' \<Longrightarrow> l \<in> set cols \<Longrightarrow>
     length (getitem l F) = 1"
proof (induction cols arbitrary: F)
  case Nil
  then show ?case by simp
next
  case (Cons col cols)
  from Cons.prems obtain F1 where 1: "fill_step stat e col F = Inr F1"
    and 2: "for_each (fill_step stat e) cols F1 = Inr F'"
    by (auto split: sum.splits)
  have lab: "map label F1 = map label F"
    using fill_step_Inr(2) [OF 1] by (simp add: comp_def)
  show ?case
  proof (cases "l = col")
    case True
    then show ?thesis using fill_step_Inr(1) [OF 1] by simp
  next
    case False
    with Cons.prems have "l \<in> set cols" by simp
    from Cons.IH [OF 2 this] show ?thesis by (simp add: length_getitem lab)
  qed
qed

lemma for_each_fill_closed:
  "for_each (fill_step stat e) cols F = Inr F' \<Longrightarrow> distinct cols \<Longrightarrow>
     F' = map (\<lambda>c. if label c \<in> set cols then filled stat c else c) F"
proof (induction cols arbitrary: F)
  case Nil
  then show ?case by simp
next
  case (Cons col cols)
  from Cons.prems obtain F1 where 1: "fill_step stat e col F = Inr F1"
    and 2: "for_each (fill_step stat e) cols F1 = Inr F'"
    by (auto split: sum.splits)
  from Cons.prems have d: "distinct cols" and n: "col \<notin> set cols" by simp_all
  have F1: "F1 = map (\<lambda>c. if label c = col then filled stat c else c) F"
    by (rule fill_step_Inr(2) [OF 1])
  have "F' = map (\<lambda>c. if label c \<in> set cols then filled stat c else c) F1"
    by (rule Cons.IH [OF 2 d])
  also have "\<dots> = map (\<lambda>c. if label c \<in> set (col # cols) then filled stat c else c) F"
    unfolding F1 map_map
  proof (rule map_cong [OF refl])
    fix c
    show "((\<lambda>c. if label c \<in> set cols then filled stat c else c) \<circ>
           (\<lambda>c. if label c = col then filled stat c else c)) c =
          (if label c \<in> set (col # cols) then filled stat c else c)"
      using n by auto
  qed
  finally show ?case .
qed

lemma for_each_fill_stat:
  "for_each (fill_step stat e) cols F = Inr F' \<Longrightarrow> l \<in> set cols \<Longrightarrow>
     c \<in> set F \<Longrightarrow> label c = l \<Longrightarrow> \<exists>v. stat (cells c) = Inr v"
proof (induction cols arbitrary: F)
  case Nil
  then show ?case by simp
next
  case (Cons col cols)
  from Cons.prems obtain F1 where 1: "fill_step stat e col F = Inr F1"
    and 2: "for_each (fill_step stat e) cols F1 = Inr F'"
    by (auto split: sum.splits)
  show ?case
  proof (cases "l = col")
    case True
    then show ?thesis using fill_step_Inr(3) [OF 1] Cons.prems by blast
  next
    case False
    with Cons.prems have l: "l \<in> set cols" by simp
    have "c \<in> set F1"
      using Cons.prems False unfolding fill_step_Inr(2) [OF 1] by force
    from Cons.IH [OF 2 l this] Cons.prems show ?thesis by simp
  qed
qed

lemma getitem_map_other:
  assumes "\<And>c. label (g c) = label c" and "\<And>c. label c = l \<Longrightarrow> g c = c"
  shows "getitem l (map g F) = getitem l F"
  using assms by (induction F) (simp_all add: getitem_def)

lemma for_each_fill_success:
  "distinct cols \<Longrightarrow>
   (\<And>l. l \<in> set cols \<Longrightarrow> \<exists>s v. getitem l F = [s] \<and> stat (cells s) = Inr v) \<Longrightarrow>
   for_each (fill_step stat e) cols F =
     Inr (map (\<lambda>c. if label c \<in> set cols then filled stat c else c) F)"
proof (induction cols arbitrary: F)
  case Nil
  then show ?case by simp
next
  case (Cons col cols)
  let ?g = "\<lambda>c. if label c = col then filled stat c else c"
  from Cons.prems(2) [of col] obtain s v where s: "getitem col F = [s]"
    and v: "stat (cells s) = Inr v" by auto
  have 1: "fill_step stat e col F = Inr (map ?g F)"
    using s v by (rule fill_step_success)
  from Cons.prems have d: "distinct cols" and n: "col \<notin> set cols" by simp_all
  have pre: "\<exists>s v. getitem l (map ?g F) = [s] \<and> stat (cells s) = Inr v"
    if "l \<in> set cols" for l
  proof -
    from that n have "l \<noteq> col" by auto
    then have "getitem l (map ?g F) = getitem l F"
      by (intro getitem_map_other) auto
    with Cons.prems(2) [of l] that show ?thesis by simp
  qed
  have "for_each (fill_step stat e) cols (map ?g F) =
          Inr (map (\<lambda>c. if label c \<in> set cols then filled stat c else c) (map ?g F))"
    using d pre by (rule Cons.IH)
  moreover have "map (\<lambda>c. if label c \<in> set cols then filled stat c else c) (map ?g F) =
                 map (\<lambda>c. if label c \<in> set (col # cols) then filled stat c else c) F"
    unfolding map_map
  proof (rule map_cong [OF refl])
    fix c
    show "((\<lambda>c. if label c \<in> set cols then filled stat c else c) \<circ> ?g) c =
          (if label c \<in> set (col # cols) then filled stat c else c)"
      using n by auto
  qed
  ultimately show ?case using 1 by simp
qed

lemma distinct_select_dtypes:
  "(\<And>l. l \<in> set (select_dtypes d F) \<Longrightarrow> length (getitem l F) = 1) \<Longrightarrow>
   distinct (select_dtypes d F)"
proof (induction F)
  case Nil
  then show ?case by (simp add: select_dtypes_def)
next
  case (Cons c F)
  have sub: "length (getitem l F) = 1" if "l \<in> set (select_dtypes d F)" for l
  proof -
    from that have "l \<in> set (select_dtypes d (c # F))" by (simp add: select_dtypes_def)
    then have "length (getitem l (c # F)) = 1" by (rule Cons.prems)
    moreover from that have "1 \<le> length (getitem l F)"
      by (auto simp: select_dtypes_def getitem_def filter_empty_conv Suc_le_eq)
    ultimately show ?thesis by (simp add: getitem_def split: if_splits)
  qed
  have d: "distinct (select_dtypes d F)" using sub by (rule Cons.IH)
  show ?case
  proof (cases "dtype c = d")
    case False
    then show ?thesis using d by (simp add: select_dtypes_def)
  next
    case True
    have "label c \<notin> set (select_dtypes d F)"
    proof
      assume in_rest: "label c \<in> set (select_dtypes d F)"
      then have "1 \<le> length (getitem (label c) F)"
        by (auto simp: select_dtypes_def getitem_def filter_empty_conv Suc_le_eq)
      moreover have "length (getitem (label c) (c # F)) = 1"
        using True by (intro Cons.prems) (simp add: select_dtypes_def)
      ultimately show False by (simp add: getitem_def)
    qed
    then show ?thesis using d True by (simp add: select_dtypes_def)
  qed
qed

lemma label_in_select_dtypes:
  assumes "c \<in> set F" and "length (getitem (label c) F) = 1"
  shows "label c \<in> set (select_dtypes d F) \<longleftrightarrow> dtype c = d"
proof
  assume "dtype c = d"
  with assms(1) show "label c \<in> set (select_dtypes d F)"
    by (auto simp: select_dtypes_def)
next
  assume "label c \<in> set (select_dtypes d F)"
  then obtain c' where c': "c' \<in> set F" "dtype c' = d" "label c' = label c"
    by (auto simp: select_dtypes_def)
  from assms(2) obtain s where s: "getitem (label c) F = [s]"
    by (cases "getitem (label c) F") auto
  have "c = s" using s assms(1) by (rule getitem_singleton) simp
  moreover have "c' = s" using s c'(1) c'(3) by (rule getitem_singleton)
  ultimately show "dtype c = d" using c'(2) by simp
qed

lemma select_dtypes_map:
  assumes "\<And>c. label (g c) = label c" and "\<And>c. dtype (g c) = dtype c"
  shows "select_dtypes d (map g F) = select_dtypes d F"
  using assms by (induction F) (simp_all add: select_dtypes_def)

lemma getitem_own:
  "c \<in> set F \<Longrightarrow> length (getitem (label c) F) = 1 \<Longrightarrow> getitem (label c) F = [c]"
proof -
  assume c: "c \<in> set F" and "length (getitem (label c) F) = 1"
  then obtain s where s: "getitem (label c) F = [s]"
    by (cases "getitem (label c) F") auto
  then have "c = s" using c by (rule getitem_singleton) simp
  with s show ?thesis by simp
qed

lemma for_each_fill_by_dtype:
  assumes "for_each (fill_step stat e) (select_dtypes d F) F = Inr F'"
  shows "F' = map (\<lambda>c. if dtype c = d then filled stat c else c) F"
    and "\<forall>c\<in>set F. dtype c = d \<longrightarrow> getitem (label c) F = [c] \<and> (\<exists>v. stat (cells c) = Inr v)"
proof -
  have u: "length (getitem l F) = 1" if "l \<in> set (select_dtypes d F)" for l
    using assms that by (rule for_each_fill_unique)
  have dist: "distinct (select_dtypes d F)"
    using u by (rule distinct_select_dtypes)
  have mem: "label c \<in> set (select_dtypes d F) \<longleftrightarrow> dtype c = d" if "c \<in> set F" for c
  proof (cases "label c \<in> set (select_dtypes d F)")
    case True
    then show ?thesis using label_in_select_dtypes [OF that u] by simp
  next
    case False
    then show ?thesis using that by (auto simp: select_dtypes_def)
  qed
  have "F' = map (\<lambda>c. if label c \<in> set (select_dtypes d F) then filled stat c else c) F"
    using assms dist by (rule for_each_fill_closed)
  also have "\<dots> = map (\<lambda>c. if dtype c = d then filled stat c else c) F"
    by (rule map_cong [OF refl]) (simp add: mem)
  finally show "F' = map (\<lambda>c. if dtype c = d then filled stat c else c) F" .
  show "\<forall>c\<in>set F. dtype c = d \<longrightarrow> getitem (label c) F = [c] \<and> (\<exists>v. stat (cells c) = Inr v)"
  proof (intro ballI impI conjI)
    fix c
    assume c: "c \<in> set F" and "dtype c = d"
    then have l: "label c \<in> set (select_dtypes d F)" by (simp add: mem)
    show "getitem (label c) F = [c]" using c u [OF l] by (rule getitem_own)
    show "\<exists>v. stat (cells c) = Inr v"
      using assms l c by (rule for_each_fill_stat) simp
  qed
qed

lemma for_each_fill_by_dtype_success:
  assumes "\<forall>c\<in>set F. dtype c = d \<longrightarrow> getitem (label c) F = [c] \<and> (\<exists>v. stat (cells c) = Inr v)"
  shows "for_each (fill_step stat e) (select_dtypes d F) F =
           Inr (map (\<lambda>c. if dtype c = d then filled stat c else c) F)"
proof -
  have own: "\<exists>s v. getitem l F = [s] \<and> stat (cells s) = Inr v"
    if "l \<in> set (select_dtypes d F)" for l
    using that assms by (auto simp: select_dtypes_def)
  have u: "length (getitem l F) = 1" if "l \<in> set (select_dtypes d F)" for l
    using own [OF that] by auto
  have dist: "distinct (select_dtypes d F)"
    using u by (rule distinct_select_dtypes)
  have mem: "label c \<in> set (select_dtypes d F) \<longleftrightarrow> dtype c = d" if "c \<in> set F" for c
  proof (cases "label c \<in> set (select_dtypes d F)")
    case True
    then show ?thesis using label_in_select_dtypes [OF that u] by simp
  next
    case False
    then show ?thesis using that by (auto simp: select_dtypes_def)
  qed
  have "for_each (fill_step stat e) (select_dtypes d F) F =
          Inr (map (\<lambda>c. if label c \<in> set (select_dtypes d F) then filled stat c else c) F)"
    using dist own by (rule for_each_fill_success)
  moreover have "map (\<lambda>c. if label c \<in> set (select_dtypes d F) then filled stat c else c) F =
                 map (\<lambda>c. if dtype c = d then filled stat c else c) F"
    by (rule map_cong [OF refl]) (simp add: mem)
  ultimately show ?thesis by simp
qed

lemma imputed_two_steps:
  "imputed c = (\<lambda>c. if dtype c = Object then filled mode_stat c else c)
                 ((\<lambda>c. if dtype c = Number then filled mean_stat c else c) c)"
  by (cases "dtype c") (simp_all add: imputed_def)

lemma getitem_map_fill:
  assumes "\<And>c. label (g c) = label c"
  shows "getitem l (map g F) = map g (getitem l F)"
  using assms by (induction F) (simp_all add: getitem_def)

lemma handle_missing_values_Inr:
  assumes "handle_missing_values F = Inr F'"
  shows "F' = map imputed F"
    and "\<forall>c\<in>set F. dtype c \<noteq> Other \<longrightarrow> getitem (label c) F = [c]"
    and "\<forall>c\<in>set F. dtype c = Object \<longrightarrow> series_mode (cells c) \<noteq> []"
proof -
  let ?g1 = "\<lambda>c. if dtype c = Number then filled mean_stat c else c"
  let ?g2 = "\<lambda>c. if dtype c = Object then filled mode_stat c else c"
  from assms obtain F1 where 1: "for_each (fill_step mean_stat TypeError) (select_dtypes Number F) F = Inr F1"
    and 2: "for_each (fill_step mode_stat KeyError) (select_dtypes Object F1) F1 = Inr F'"
    by (auto simp: handle_missing_values_def fill_mean_step fill_mode_step split: sum.splits)
  have F1: "F1 = map ?g1 F" by (rule for_each_fill_by_dtype(1) [OF 1])
  have F': "F' = map ?g2 F1" by (rule for_each_fill_by_dtype(1) [OF 2])
  show "F' = map imputed F"
    unfolding F' F1 map_map by (rule map_cong [OF refl]) (simp add: imputed_two_steps)
  have n: "\<forall>c\<in>set F. dtype c = Number \<longrightarrow> getitem (label c) F = [c]"
    using for_each_fill_by_dtype(2) [OF 1] by blast
  have o: "\<forall>c\<in>set F1. dtype c = Object \<longrightarrow>
             getitem (label c) F1 = [c] \<and> (\<exists>v. mode_stat (cells c) = Inr v)"
    by (rule for_each_fill_by_dtype(2) [OF 2])
  have obj: "getitem (label c) F = [c] \<and> series_mode (cells c) \<noteq> []"
    if c: "c \<in> set F" and d: "dtype c = Object" for c
  proof -
    from c d have "c \<in> set F1" unfolding F1 by force
    with o d have g: "getitem (label c) F1 = [c]" and m: "\<exists>v. mode_stat (cells c) = Inr v"
      by auto
    have "length (getitem (label c) F) = length (getitem (label c) F1)"
      unfolding F1 by (simp add: getitem_map_fill)
    with g have "length (getitem (label c) F) = 1" by simp
    with c have "getitem (label c) F = [c]" by (rule getitem_own)
    moreover from m have "series_mode (cells c) \<noteq> []"
      by (auto simp: mode_stat_def)
    ultimately show ?thesis by simp
  qed
  show "\<forall>c\<in>set F. dtype c \<noteq> Other \<longrightarrow> getitem (label c) F = [c]"
  proof (intro ballI impI)
    fix c
    assume "c \<in> set F" and "dtype c \<noteq> Other"
    then show "getitem (label c) F = [c]"
      using n obj by (cases "dtype c") auto
  qed
  show "\<forall>c\<in>set F. dtype c = Object \<longrightarrow> series_mode (cells c) \<noteq> []"
    using obj by blast
qed

lemma handle_missing_values_success:
  assumes "\<forall>c\<in>set F. dtype c \<noteq> Other \<longrightarrow> getitem (label c) F = [c]"
    and "\<forall>c\<in>set F. dtype c = Object \<longrightarrow> series_mode (cells c) \<noteq> []"
  shows "handle_missing_values F = Inr (map imputed F)"
proof -
  let ?g1 = "\<lambda>c. if dtype c = Number then filled mean_stat c else c"
  let ?g2 = "\<lambda>c. if dtype c = Object then filled mode_stat c else c"
  have 1: "for_each (fill_step mean_stat TypeError) (select_dtypes Number F) F = Inr (map ?g1 F)"
    using assms(1) by (intro for_each_fill_by_dtype_success) (auto simp: mean_stat_def)
  have pre: "\<forall>c\<in>set (map ?g1 F). dtype c = Object \<longrightarrow>
               getitem (label c) (map ?g1 F) = [c] \<and> (\<exists>v. mode_stat (cells c) = Inr v)"
  proof (intro ballI impI)
    fix c'
    assume "c' \<in> set (map ?g1 F)" and d: "dtype c' = Object"
    then obtain c where c: "c \<in> set F" and c': "c' = ?g1 c" by auto
    from d c' have dc: "dtype c = Object" by (auto split: if_splits)
    with c' have eq: "c' = c" by simp
    from assms c dc have g: "getitem (label c) F = [c]" and m: "series_mode (cells c) \<noteq> []"
      by auto
    have "getitem (label c) (map ?g1 F) = map ?g1 (getitem (label c) F)"
      by (rule getitem_map_fill) simp
    with g dc have "getitem (label c) (map ?g1 F) = [c]" by simp
    moreover from m have "\<exists>v. mode_stat (cells c) = Inr v"
      by (cases "series_mode (cells c)") (simp_all add: mode_stat_def)
    ultimately show "getitem (label c') (map ?g1 F) = [c'] \<and> (\<exists>v. mode_stat (cells c') = Inr v)"
      using eq by simp
  qed
  have 2: "for_each (fill_step mode_stat KeyError) (select_dtypes Object (map ?g1 F)) (map ?g1 F) =
             Inr (map ?g2 (map ?g1 F))"
    using pre by (rule for_each_fill_by_dtype_success)
  have "map ?g2 (map ?g1 F) = map imputed F"
    unfolding map_map by (rule map_cong [OF refl]) (simp add: imputed_two_steps)
  with 1 2 show ?thesis
    by (simp add: handle_missing_values_def fill_mean_step fill_mode_step)
qed

lemma distinct_labels_own:
  "distinct (map label F) \<Longrightarrow> c \<in> set F \<Longrightarrow> getitem (label c) F = [c]"
proof (induction F)
  case Nil
  then show ?case by simp
next
  case (Cons a F)
  show ?case
  proof (cases "c = a")
    case True
    from Cons.prems(1) have "label a \<notin> label ` set F" by simp
    then have "\<forall>x\<in>set F. label x \<noteq> label a" by (metis imageI)
    then have "filter (\<lambda>x. label x = label a) F = []"
      by (simp add: filter_empty_conv)
    with True show ?thesis by (simp add: getitem_def)
  next
    case False
    with Cons.prems have c: "c \<in> set F" and "label a \<noteq> label c" by auto
    with Cons show ?thesis by (simp add: getitem_def)
  qed
qed

section \<open>Mean and mode of a column\<close>

lemma present_numbers:
  "list_all (cell_ok Number) cs \<Longrightarrow> filter (\<lambda>x. x \<noteq> NA) cs = map Num (numbers cs)"
proof (induction cs)
  case Nil
  then show ?case by simp
next
  case (Cons c cs)
  then show ?case by (cases c) simp_all
qed

lemma present_texts:
  "list_all (cell_ok Object) cs \<Longrightarrow> filter (\<lambda>x. x \<noteq> NA) cs = map Str (texts cs)"
proof (induction cs)
  case Nil
  then show ?case by simp
next
  case (Cons c cs)
  then show ?case by (cases c) simp_all
qed

lemma fold_max_upper: "x \<in> set xs \<Longrightarrow> x \<le> fold max xs (a::nat)"
proof (induction xs arbitrary: a)
  case Nil
  then show ?case by simp
next
  case (Cons y ys)
  have mono: "b \<le> fold max ys b" for b :: nat
  proof (induction ys arbitrary: b)
    case Nil
    then show ?case by simp
  next
    case (Cons z zs)
    have "b \<le> max z b" by simp
    also have "\<dots> \<le> fold max zs (max z b)" by (rule Cons.IH)
    finally show ?case by simp
  qed
  show ?case
  proof (cases "x = y")
    case True
    have "y \<le> max y a" by simp
    also have "\<dots> \<le> fold max ys (max y a)" by (rule mono)
    finally show ?thesis using True by simp
  next
    case False
    with Cons.prems have "x \<in> set ys" by simp
    then show ?thesis using Cons.IH by simp
  qed
qed

lemma fold_max_attained: "fold max xs (a::nat) = a \<or> fold max xs a \<in> set xs"
proof (induction xs arbitrary: a)
  case Nil
  then show ?case by simp
next
  case (Cons y ys)
  from Cons.IH [of "max y a"] show ?case
    by (auto simp: max_def split: if_splits)
qed

lemma series_mode_head:
  assumes "texts cs \<noteq> []"
  shows "\<exists>m rest. series_mode cs = m # rest \<and> m \<in> set (texts cs)
           \<and> (\<forall>v. count_list (texts cs) v \<le> count_list (texts cs) m)
           \<and> (\<forall>v. count_list (texts cs) v = count_list (texts cs) m \<longrightarrow> m \<le> v)"
proof -
  define vs where "vs = texts cs"
  define top where "top = fold max (map (count_list vs) vs) 0"
  define M where "M = filter (\<lambda>v. count_list vs v = top) vs"
  have mode: "series_mode cs = sort (remdups M)"
    by (simp add: series_mode_def vs_def top_def M_def Let_def)
  from assms obtain v0 where v0: "v0 \<in> set vs" by (cases vs) (auto simp: vs_def)
  have upper: "count_list vs v \<le> top" for v
  proof (cases "v \<in> set vs")
    case True
    then have "count_list vs v \<in> set (map (count_list vs) vs)" by simp
    then show ?thesis unfolding top_def by (rule fold_max_upper)
  next
    case False
    then show ?thesis by simp
  qed
  have "count_list vs v0 \<noteq> 0" using v0 by (simp add: count_list_0_iff)
  then have "0 < count_list vs v0" by simp
  with upper [of v0] have pos: "0 < top" by simp
  have "top = 0 \<or> top \<in> set (map (count_list vs) vs)"
    unfolding top_def by (rule fold_max_attained)
  with pos obtain v1 where v1: "v1 \<in> set vs" "count_list vs v1 = top" by auto
  then have "v1 \<in> set M" by (simp add: M_def)
  then have "sort (remdups M) \<noteq> []"
    by (metis empty_iff list.set(1) set_remdups set_sort)
  then obtain m rest where mr: "sort (remdups M) = m # rest"
    by (cases "sort (remdups M)") auto
  have "m \<in> set (sort (remdups M))" by (simp add: mr)
  then have mM: "m \<in> set M" by simp
  then have m: "m \<in> set vs" "count_list vs m = top" by (simp_all add: M_def)
  have "sorted (m # rest)" using sorted_sort [of "remdups M"] by (simp add: mr)
  then have least: "\<forall>x\<in>set (m # rest). m \<le> x" by auto
  have "m \<le> v" if "count_list vs v = count_list vs m" for v
  proof -
    from that m pos have "count_list vs v \<noteq> 0" by simp
    then have "v \<in> set vs" by (simp add: count_list_0_iff)
    with that m have "v \<in> set M" by (simp add: M_def)
    then have "v \<in> set (sort (remdups M))" by simp
    with least show ?thesis by (auto simp: mr)
  qed
  with mode mr m upper show ?thesis by (auto simp: vs_def)
qed

lemma series_mode_empty: "texts cs = [] \<Longrightarrow> series_mode cs = []"
  by (simp add: series_mode_def)

lemma texts_nonempty:
  "list_all (cell_ok Object) cs \<Longrightarrow> \<exists>x\<in>set cs. x \<noteq> NA \<Longrightarrow> texts cs \<noteq> []"
proof -
  assume a: "list_all (cell_ok Object) cs" and b: "\<exists>x\<in>set cs. x \<noteq> NA"
  from b have "filter (\<lambda>x. x \<noteq> NA) cs \<noteq> []" by (simp add: filter_empty_conv)
  with present_texts [OF a] show ?thesis by auto
qed

lemma numbers_nonempty:
  "list_all (cell_ok Number) cs \<Longrightarrow> \<exists>x\<in>set cs. x \<noteq> NA \<Longrightarrow> numbers cs \<noteq> []"
proof -
  assume a: "list_all (cell_ok Number) cs" and b: "\<exists>x\<in>set cs. x \<noteq> NA"
  from b have "filter (\<lambda>x. x \<noteq> NA) cs \<noteq> []" by (simp add: filter_empty_conv)
  with present_numbers [OF a] show ?thesis by auto
qed

lemma well_typed_column:
  "well_typed F \<Longrightarrow> c \<in> set F \<Longrightarrow> list_all (cell_ok (dtype c)) (cells c)"
  by (simp add: well_typed_def list_all_iff)

lemma cells_imputed_Number:
  "dtype c = Number \<Longrightarrow> cells (imputed c) = fillna (series_mean (cells c)) (cells c)"
  by (simp add: imputed_def filled_def mean_stat_def)

lemma cells_imputed_Object:
  "dtype c = Object \<Longrightarrow> series_mode (cells c) = m # rest \<Longrightarrow>
     cells (imputed c) = fillna (Str m) (cells c)"
  by (simp add: imputed_def filled_def mode_stat_def)

lemma imputed_Other: "dtype c = Other \<Longrightarrow> imputed c = c"
  by (simp add: imputed_def)

lemma label_imputed [simp]: "label (imputed c) = label c"
  by (cases "dtype c") (simp_all add: imputed_def)

lemma dtype_imputed [simp]: "dtype (imputed c) = dtype c"
  by (cases "dtype c") (simp_all add: imputed_def)

lemma handle_missing_values_returns:
  assumes "well_typed F" and "distinct (map label F)"
    and "\<forall>c\<in>set F. dtype c = Object \<longrightarrow> (\<exists>x\<in>set (cells c). x \<noteq> NA)"
  shows "handle_missing_values F = Inr (map imputed F)"
proof (rule handle_missing_values_success)
  show "\<forall>c\<in>set F. dtype c \<noteq> Other \<longrightarrow> getitem (label c) F = [c]"
    using assms(2) by (simp add: distinct_labels_own)
  show "\<forall>c\<in>set F. dtype c = Object \<longrightarrow> series_mode (cells c) \<noteq> []"
  proof (intro ballI impI)
    fix c
    assume c: "c \<in> set F" and d: "dtype c = Object"
    have "list_all (cell_ok Object) (cells c)"
      using well_typed_column [OF assms(1) c] d by simp
    moreover from assms(3) c d have "\<exists>x\<in>set (cells c). x \<noteq> NA" by simp
    ultimately have "texts (cells c) \<noteq> []" by (rule texts_nonempty)
    from series_mode_head [OF this] show "series_mode (cells c) \<noteq> []" by auto
  qed
qed

section \<open>What handle\_missing\_values fills\<close>

lemma handle_missing_values_nth:
  assumes "handle_missing_values df = Inr df'" and "j < length df"
  shows "df' ! j = imputed (df ! j)" and "length df' = length df"
  using handle_missing_values_Inr(1) [OF assms(1)] assms(2) by simp_all

text \<open>
  Claim C6. In a numeric column with at least one non-missing value, every missing cell
  becomes the arithmetic mean of the non-missing values \<open>xs\<close> of that column, the sum
  divided by the count, stored as that number without rounding; the other cells, the
  label and the dtype stay. The call returns whenever the labels are distinct and every
  text column has a value.
\<close>

theorem handle_missing_values_numeric_mean:
  assumes "well_typed df" and "j < length df" and "dtype (df ! j) = Number"
    and "\<exists>x\<in>set (cells (df ! j)). x \<noteq> NA"
  shows "(\<forall>df'. handle_missing_values df = Inr df' \<longrightarrow>
            (\<exists>xs. xs \<noteq> [] \<and> filter (\<lambda>x. x \<noteq> NA) (cells (df ! j)) = map Num xs
                \<and> cells (df' ! j) =
                    map (\<lambda>x. if x = NA then Num (sum_list xs / real (length xs)) else x)
                      (cells (df ! j))
                \<and> label (df' ! j) = label (df ! j) \<and> dtype (df' ! j) = Number))
       \<and> (distinct (map label df)
            \<and> (\<forall>c\<in>set df. dtype c = Object \<longrightarrow> (\<exists>x\<in>set (cells c). x \<noteq> NA))
          \<longrightarrow> (\<exists>df'. handle_missing_values df = Inr df'))"
proof (intro conjI allI impI)
  fix df'
  assume r: "handle_missing_values df = Inr df'"
  let ?c = "df ! j"
  let ?xs = "numbers (cells ?c)"
  have c: "?c \<in> set df" using assms(2) by simp
  have ok: "list_all (cell_ok Number) (cells ?c)"
    using well_typed_column [OF assms(1) c] assms(3) by simp
  have ne: "?xs \<noteq> []" using ok assms(4) by (rule numbers_nonempty)
  have pres: "filter (\<lambda>x. x \<noteq> NA) (cells ?c) = map Num ?xs"
    using ok by (rule present_numbers)
  have nth: "df' ! j = imputed ?c"
    using r assms(2) by (rule handle_missing_values_nth)
  have "cells (df' ! j) = fillna (series_mean (cells ?c)) (cells ?c)"
    using assms(3) by (simp add: nth cells_imputed_Number)
  then have cells: "cells (df' ! j) =
      map (\<lambda>x. if x = NA then Num (sum_list ?xs / real (length ?xs)) else x) (cells ?c)"
    using ne by (simp add: fillna_def series_mean_def mean_def Let_def)
  from ne pres cells nth assms(3)
  show "\<exists>xs. xs \<noteq> [] \<and> filter (\<lambda>x. x \<noteq> NA) (cells (df ! j)) = map Num xs
          \<and> cells (df' ! j) =
              map (\<lambda>x. if x = NA then Num (sum_list xs / real (length xs)) else x)
                (cells (df ! j))
          \<and> label (df' ! j) = label (df ! j) \<and> dtype (df' ! j) = Number"
    by (intro exI [of _ ?xs]) simp
next
  assume "distinct (map label df)
            \<and> (\<forall>c\<in>set df. dtype c = Object \<longrightarrow> (\<exists>x\<in>set (cells c). x \<noteq> NA))"
  then have "handle_missing_values df = Inr (map imputed df)"
    using assms(1) by (intro handle_missing_values_returns) simp_all
  then show "\<exists>df'. handle_missing_values df = Inr df'" by blast
qed

lemma handle_missing_values_scenario2:
  "handle_missing_values scenario2 =
     Inr [\<lparr>label = ''a'', dtype = Number, cells = [Num 1, Num 2, Num 2, Num 3]\<rparr>]"
  by (simp add: scenario2_def handle_missing_values_def select_dtypes_def fill_mean_def
      getitem_def series_mean_def mean_def fillna_def setitem_def)

text \<open>Scenario 2 of the specification: \<open>[1, 2, missing, 3]\<close> becomes \<open>[1, 2, 2, 3]\<close>.\<close>

theorem handle_missing_values_scenario2_mean:
  "well_typed scenario2
   \<and> handle_missing_values scenario2 =
       Inr [\<lparr>label = ''a'', dtype = Number, cells = [Num 1, Num 2, Num 2, Num 3]\<rparr>]
   \<and> (\<exists>xs. xs \<noteq> [] \<and> [Num 1, Num 2, Num 3] = map Num xs
         \<and> [Num 1, Num 2, Num 2, Num 3] =
             map (\<lambda>x. if x = NA then Num (sum_list xs / real (length xs)) else x)
               [Num 1, Num 2, NA, Num 3])"
proof -
  have h1: "well_typed scenario2" by (simp add: scenario2_def well_typed_def)
  have h2: "0 < length scenario2" by (simp add: scenario2_def)
  have h3: "dtype (scenario2 ! 0) = Number" by (simp add: scenario2_def)
  have h4: "\<exists>x\<in>set (cells (scenario2 ! 0)). x \<noteq> NA" by (simp add: scenario2_def)
  note t = handle_missing_values_numeric_mean [OF h1 h2 h3 h4]
  from t handle_missing_values_scenario2
  have "\<exists>xs. xs \<noteq> [] \<and> filter (\<lambda>x. x \<noteq> NA) (cells (scenario2 ! 0)) = map Num xs
          \<and> cells ([\<lparr>label = ''a'', dtype = Number, cells = [Num 1, Num 2, Num 2, Num 3]\<rparr>] ! 0) =
              map (\<lambda>x. if x = NA then Num (sum_list xs / real (length xs)) else x)
                (cells (scenario2 ! 0))
          \<and> label ([\<lparr>label = ''a'', dtype = Number, cells = [Num 1, Num 2, Num 2, Num 3]\<rparr>] ! 0) = label (scenario2 ! 0)
          \<and> dtype ([\<lparr>label = ''a'', dtype = Number, cells = [Num 1, Num 2, Num 2, Num 3]\<rparr>] ! 0) = Number"
    by blast
  then have "\<exists>xs. xs \<noteq> [] \<and> [Num 1, Num 2, Num 3] = map Num xs
         \<and> [Num 1, Num 2, Num 2, Num 3] =
             map (\<lambda>x. if x = NA then Num (sum_list xs / real (length xs)) else x)
               [Num 1, Num 2, NA, Num 3]"
    by (simp add: scenario2_def)
  with h1 handle_missing_values_scenario2 show ?thesis by blast
qed

text \<open>
  Claim C3, as the code has it. In a text column with at least one non-missing value,
  every missing cell becomes the mode \<open>m\<close>: a value of the column that no value occurs
  more often than. When several values are equally frequent, \<open>m\<close> is the smallest of
  them in the order of texts (\<^verbatim>\<open>Series.mode()\<close> sorts its result and the code takes
  entry 0), not the one that comes first in row order.
\<close>

theorem handle_missing_values_object_mode:
  assumes "well_typed df" and "j < length df" and "dtype (df ! j) = Object"
    and "\<exists>x\<in>set (cells (df ! j)). x \<noteq> NA"
  shows "(\<forall>df'. handle_missing_values df = Inr df' \<longrightarrow>
            (\<exists>vs m. filter (\<lambda>x. x \<noteq> NA) (cells (df ! j)) = map Str vs \<and> m \<in> set vs
                \<and> (\<forall>v. count_list vs v \<le> count_list vs m)
                \<and> (\<forall>v. count_list vs v = count_list vs m \<longrightarrow> m \<le> v)
                \<and> cells (df' ! j) =
                    map (\<lambda>x. if x = NA then Str m else x) (cells (df ! j))))
       \<and> (distinct (map label df)
            \<and> (\<forall>c\<in>set df. dtype c = Object \<longrightarrow> (\<exists>x\<in>set (cells c). x \<noteq> NA))
          \<longrightarrow> (\<exists>df'. handle_missing_values df = Inr df'))"
proof (intro conjI allI impI)
  fix df'
  assume r: "handle_missing_values df = Inr df'"
  let ?c = "df ! j"
  let ?vs = "texts (cells ?c)"
  have c: "?c \<in> set df" using assms(2) by simp
  have ok: "list_all (cell_ok Object) (cells ?c)"
    using well_typed_column [OF assms(1) c] assms(3) by simp
  have ne: "?vs \<noteq> []" using ok assms(4) by (rule texts_nonempty)
  have pres: "filter (\<lambda>x. x \<noteq> NA) (cells ?c) = map Str ?vs"
    using ok by (rule present_texts)
  from series_mode_head [OF ne] obtain m rest where m: "series_mode (cells ?c) = m # rest"
    and mem: "m \<in> set ?vs"
    and top: "\<forall>v. count_list ?vs v \<le> count_list ?vs m"
    and least: "\<forall>v. count_list ?vs v = count_list ?vs m \<longrightarrow> m \<le> v"
    by blast
  have nth: "df' ! j = imputed ?c"
    using r assms(2) by (rule handle_missing_values_nth)
  have "cells (df' ! j) = fillna (Str m) (cells ?c)"
    using assms(3) m by (simp add: nth cells_imputed_Object)
  then have cells: "cells (df' ! j) = map (\<lambda>x. if x = NA then Str m else x) (cells ?c)"
    by (simp add: fillna_def)
  from pres mem top least cells
  show "\<exists>vs m. filter (\<lambda>x. x \<noteq> NA) (cells (df ! j)) = map Str vs \<and> m \<in> set vs
          \<and> (\<forall>v. count_list vs v \<le> count_list vs m)
          \<and> (\<forall>v. count_list vs v = count_list vs m \<longrightarrow> m \<le> v)
          \<and> cells (df' ! j) = map (\<lambda>x. if x = NA then Str m else x) (cells (df ! j))"
    by blast
next
  assume "distinct (map label df)
            \<and> (\<forall>c\<in>set df. dtype c = Object \<longrightarrow> (\<exists>x\<in>set (cells c). x \<noteq> NA))"
  then have "handle_missing_values df = Inr (map imputed df)"
    using assms(1) by (intro handle_missing_values_returns) simp_all
  then show "\<exists>df'. handle_missing_values df = Inr df'" by blast
qed

lemma handle_missing_values_scenario3:
  "handle_missing_values scenario3 =
     Inr [\<lparr>label = ''c'', dtype = Object, cells = [Str ''x'', Str ''x'', Str ''x'', Str ''y'']\<rparr>]"
  by (simp add: scenario3_def handle_missing_values_def select_dtypes_def fill_mode_def
      getitem_def series_mode_def fillna_def setitem_def)

text \<open>
  Against claim C3 as stated: in \<open>[y, x, missing]\<close> both values occur once and \<open>y\<close> comes
  first in row order, but the missing cell is filled with \<open>x\<close>.
\<close>

theorem handle_missing_values_tie_takes_smallest:
  "cells (tie_table ! 0) = [Str ''y'', Str ''x'', NA]
   \<and> handle_missing_values tie_table =
       Inr [\<lparr>label = ''c'', dtype = Object, cells = [Str ''y'', Str ''x'', Str ''x'']\<rparr>]"
  by (simp add: tie_table_def handle_missing_values_def select_dtypes_def fill_mode_def
      getitem_def series_mode_def fillna_def setitem_def)

text \<open>Scenario 3 of the specification: \<open>[x, x, missing, y]\<close> becomes \<open>[x, x, x, y]\<close>.\<close>

theorem handle_missing_values_scenario3_mode:
  "well_typed scenario3
   \<and> handle_missing_values scenario3 =
       Inr [\<lparr>label = ''c'', dtype = Object,
              cells = [Str ''x'', Str ''x'', Str ''x'', Str ''y'']\<rparr>]
   \<and> (\<exists>vs m. [Str ''x'', Str ''x'', Str ''y''] = map Str vs \<and> m \<in> set vs
         \<and> (\<forall>v. count_list vs v \<le> count_list vs m)
         \<and> (\<forall>v. count_list vs v = count_list vs m \<longrightarrow> m \<le> v)
         \<and> [Str ''x'', Str ''x'', Str ''x'', Str ''y''] =
             map (\<lambda>x. if x = NA then Str m else x) [Str ''x'', Str ''x'', NA, Str ''y''])"
proof -
  have h1: "well_typed scenario3" by (simp add: scenario3_def well_typed_def)
  have h2: "0 < length scenario3" by (simp add: scenario3_def)
  have h3: "dtype (scenario3 ! 0) = Object" by (simp add: scenario3_def)
  have h4: "\<exists>x\<in>set (cells (scenario3 ! 0)). x \<noteq> NA" by (simp add: scenario3_def)
  let ?r = "[\<lparr>label = ''c'', dtype = Object,
               cells = [Str ''x'', Str ''x'', Str ''x'', Str ''y'']\<rparr>]"
  note t = handle_missing_values_object_mode [OF h1 h2 h3 h4]
  from t handle_missing_values_scenario3
  have "\<exists>vs m. filter (\<lambda>x. x \<noteq> NA) (cells (scenario3 ! 0)) = map Str vs \<and> m \<in> set vs
          \<and> (\<forall>v. count_list vs v \<le> count_list vs m)
          \<and> (\<forall>v. count_list vs v = count_list vs m \<longrightarrow> m \<le> v)
          \<and> cells (?r ! 0) = map (\<lambda>x. if x = NA then Str m else x) (cells (scenario3 ! 0))"
    by blast
  then have "\<exists>vs m. [Str ''x'', Str ''x'', Str ''y''] = map Str vs \<and> m \<in> set vs
         \<and> (\<forall>v. count_list vs v \<le> count_list vs m)
         \<and> (\<forall>v. count_list vs v = count_list vs m \<longrightarrow> m \<le> v)
         \<and> [Str ''x'', Str ''x'', Str ''x'', Str ''y''] =
             map (\<lambda>x. if x = NA then Str m else x) [Str ''x'', Str ''x'', NA, Str ''y'']"
    by (simp add: scenario3_def)
  with h1 handle_missing_values_scenario3 show ?thesis by blast
qed

lemma fillna_no_NA: "v \<noteq> NA \<Longrightarrow> NA \<notin> set (fillna v cs)"
  by (auto simp: fillna_def)

text \<open>
  Claim C2, as the code has it. When every numeric and every object column has at least
  one non-missing value, then after \<^verbatim>\<open>handle_missing_values\<close> returns no cell of a
  numeric or object column is missing. Columns of any other dtype are not selected by
  either loop and come back as they were, missing cells included. The call returns
  whenever the labels are distinct.
\<close>

theorem handle_missing_values_fills_numeric_and_object:
  assumes "well_typed df"
    and "\<forall>c\<in>set df. dtype c \<noteq> Other \<longrightarrow> (\<exists>x\<in>set (cells c). x \<noteq> NA)"
  shows "(\<forall>df'. handle_missing_values df = Inr df' \<longrightarrow>
            (\<forall>c'\<in>set df'. dtype c' \<noteq> Other \<longrightarrow> NA \<notin> set (cells c'))
            \<and> filter (\<lambda>c. dtype c = Other) df' = filter (\<lambda>c. dtype c = Other) df
            \<and> map label df' = map label df \<and> map dtype df' = map dtype df)
       \<and> (distinct (map label df) \<longrightarrow> (\<exists>df'. handle_missing_values df = Inr df'))"
proof (intro conjI allI impI)
  fix df'
  assume r: "handle_missing_values df = Inr df'"
  have df': "df' = map imputed df" by (rule handle_missing_values_Inr(1) [OF r])
  show "map label df' = map label df" by (simp add: df' comp_def)
  show "map dtype df' = map dtype df" by (simp add: df' comp_def)
  have "filter (\<lambda>c. dtype c = Other) (map imputed df) =
          map imputed (filter (\<lambda>c. dtype c = Other) df)"
    by (simp add: filter_map comp_def)
  also have "\<dots> = map (\<lambda>c. c) (filter (\<lambda>c. dtype c = Other) df)"
    by (rule map_cong [OF refl]) (simp add: imputed_Other)
  finally show "filter (\<lambda>c. dtype c = Other) df' = filter (\<lambda>c. dtype c = Other) df"
    by (simp add: df')
  show "\<forall>c'\<in>set df'. dtype c' \<noteq> Other \<longrightarrow> NA \<notin> set (cells c')"
  proof (intro ballI impI)
    fix c'
    assume "c' \<in> set df'" and d': "dtype c' \<noteq> Other"
    then obtain c where c: "c \<in> set df" and c': "c' = imputed c" by (auto simp: df')
    from d' c' have d: "dtype c \<noteq> Other" by simp
    with assms(2) c have v: "\<exists>x\<in>set (cells c). x \<noteq> NA" by simp
    have ok: "list_all (cell_ok (dtype c)) (cells c)"
      using assms(1) c by (rule well_typed_column)
    show "NA \<notin> set (cells c')"
    proof (cases "dtype c")
      case Number
      with ok v have "numbers (cells c) \<noteq> []" by (simp add: numbers_nonempty)
      then have "series_mean (cells c) \<noteq> NA" by (simp add: series_mean_def Let_def)
      then show ?thesis by (simp add: c' cells_imputed_Number [OF Number] fillna_no_NA)
    next
      case Object
      with ok v have "texts (cells c) \<noteq> []" by (simp add: texts_nonempty)
      from series_mode_head [OF this] obtain m rest where "series_mode (cells c) = m # rest"
        by blast
      then show ?thesis by (simp add: c' cells_imputed_Object [OF Object] fillna_no_NA)
    next
      case Other
      with d show ?thesis by simp
    qed
  qed
next
  assume "distinct (map label df)"
  then have "handle_missing_values df = Inr (map imputed df)"
    using assms by (intro handle_missing_values_returns) simp_all
  then show "\<exists>df'. handle_missing_values df = Inr df'" by blast
qed

text \<open>
  Against claim C2 as stated: a datetime column with a value and a missing cell comes
  back with the missing cell.
\<close>

theorem handle_missing_values_keeps_missing_datetime:
  "cells (datetime_table ! 0) = [Str ''2024-01-05'', NA]
   \<and> handle_missing_values datetime_table =
       Inr [\<lparr>label = ''joined'', dtype = Other, cells = [Str ''2024-01-05'', NA]\<rparr>]"
  by (simp add: datetime_table_def handle_missing_values_def select_dtypes_def)

lemma handle_missing_values_mixed_table:
  "handle_missing_values mixed_table =
     Inr [\<lparr>label = ''a'', dtype = Number, cells = [Num 1, Num (5 / 3), Num 2, Num 2]\<rparr>,
          \<lparr>label = ''c'', dtype = Object, cells = [Str ''x'', Str ''x'', Str ''x'', Str ''y'']\<rparr>,
          \<lparr>label = ''joined'', dtype = Other, cells = [NA, Str ''2024-01-05'', NA, NA]\<rparr>]"
  by (simp add: mixed_table_def handle_missing_values_def select_dtypes_def fill_mean_def
      fill_mode_def getitem_def series_mean_def mean_def series_mode_def fillna_def setitem_def)

text \<open>A table with a column of each kind: the numeric and the text column are filled.\<close>

theorem handle_missing_values_mixed_table_filled:
  "well_typed mixed_table
   \<and> handle_missing_values mixed_table =
       Inr [\<lparr>label = ''a'', dtype = Number, cells = [Num 1, Num (5 / 3), Num 2, Num 2]\<rparr>,
            \<lparr>label = ''c'', dtype = Object,
               cells = [Str ''x'', Str ''x'', Str ''x'', Str ''y'']\<rparr>,
            \<lparr>label = ''joined'', dtype = Other, cells = [NA, Str ''2024-01-05'', NA, NA]\<rparr>]
   \<and> NA \<notin> set [Num 1, Num (5 / 3), Num 2, Num 2]
   \<and> NA \<notin> set [Str ''x'', Str ''x'', Str ''x'', Str ''y'']"
proof -
  have h1: "well_typed mixed_table" by (simp add: mixed_table_def well_typed_def)
  have h2: "\<forall>c\<in>set mixed_table. dtype c \<noteq> Other \<longrightarrow> (\<exists>x\<in>set (cells c). x \<noteq> NA)"
    by (simp add: mixed_table_def)
  note t = handle_missing_values_fills_numeric_and_object [OF h1 h2]
  let ?r = "[\<lparr>label = ''a'', dtype = Number, cells = [Num 1, Num (5 / 3), Num 2, Num 2]\<rparr>,
            \<lparr>label = ''c'', dtype = Object,
               cells = [Str ''x'', Str ''x'', Str ''x'', Str ''y'']\<rparr>,
            \<lparr>label = ''joined'', dtype = Other, cells = [NA, Str ''2024-01-05'', NA, NA]\<rparr>]"
  from t handle_missing_values_mixed_table
  have "\<forall>c'\<in>set ?r. dtype c' \<noteq> Other \<longrightarrow> NA \<notin> set (cells c')" by blast
  then have "NA \<notin> set [Num 1, Num (5 / 3), Num 2, Num 2]
     \<and> NA \<notin> set [Str ''x'', Str ''x'', Str ''x'', Str ''y'']"
    by simp
  with h1 handle_missing_values_mixed_table show ?thesis by blast
qed

section \<open>What remove\_outliers keeps\<close>

lemma getitems_own:
  "(\<And>c. c \<in> set G \<Longrightarrow> getitem (label c) F = [c]) \<Longrightarrow> getitems (map label G) F = G"
  by (induction G) (simp_all add: getitems_def)

lemma getitems_numeric:
  assumes "distinct (map label F)"
  shows "getitems (select_dtypes Number F) F = filter (\<lambda>c. dtype c = Number) F"
  unfolding select_dtypes_def
  by (rule getitems_own) (simp add: distinct_labels_own [OF assms])

lemma remove_outliers_cases:
  "remove_outliers t df = Inl TypeError \<and> list_ex (\<lambda>c. dtype c \<noteq> Number) (getitems (select_dtypes Number df) df)
   \<or> remove_outliers t df =
        Inr (select_rows
              (all_axis1 (nrows df)
                (map (\<lambda>c. map (below t) (zscore (cells c))) (getitems (select_dtypes Number df) df)))
              df)
      \<and> \<not> list_ex (\<lambda>c. dtype c \<noteq> Number) (getitems (select_dtypes Number df) df)"
  by (simp add: remove_outliers_def Let_def comp_def)

lemma length_keep_mono:
  "list_all2 (\<longrightarrow>) bs bs' \<Longrightarrow> length (keep bs xs) \<le> length (keep bs' xs)"
proof (induction bs bs' arbitrary: xs rule: list_all2_induct)
  case Nil
  then show ?case by simp
next
  case (Cons b bs b' bs')
  show ?case
  proof (cases xs)
    case Nil
    then show ?thesis by simp
  next
    case (Cons x xs')
    with Cons.hyps Cons.IH [of xs'] show ?thesis by auto
  qed
qed

lemma below_mono: "t1 \<le> t2 \<Longrightarrow> below t1 z \<longrightarrow> below t2 z"
  by (cases z) auto

lemma list_all2_map2_conj:
  assumes "list_all2 (\<longrightarrow>) a b" and "list_all2 (\<longrightarrow>) c d"
  shows "list_all2 (\<longrightarrow>) (map2 (\<and>) a c) (map2 (\<and>) b d)"
  using assms by (auto simp: list_all2_conv_all_nth)

lemma all_axis1_mono:
  "list_all2 (list_all2 (\<longrightarrow>)) cols cols' \<Longrightarrow>
     list_all2 (\<longrightarrow>) (all_axis1 n cols) (all_axis1 n cols')"
proof (induction cols cols' rule: list_all2_induct)
  case Nil
  show ?case by (simp add: all_axis1_def list_all2_conv_all_nth)
next
  case (Cons c cols c' cols')
  then show ?case
    using list_all2_map2_conj [of c c' "all_axis1 n cols" "all_axis1 n cols'"]
    by (simp add: all_axis1_def)
qed

lemma flags_mono:
  assumes "t1 \<le> t2"
  shows "list_all2 (list_all2 (\<longrightarrow>))
           (map (\<lambda>c. map (below t1) (zscore (cells c))) G)
           (map (\<lambda>c. map (below t2) (zscore (cells c))) G)"
  using below_mono [OF assms]
  by (simp add: list_all2_conv_all_nth)

lemma nrows_select_rows:
  "nrows (select_rows bs F) = (case F of [] \<Rightarrow> 0 | c # G \<Rightarrow> length (keep bs (cells c)))"
  by (cases F) (simp_all add: nrows_def select_rows_def)

lemma nrows_select_rows_mono:
  "list_all2 (\<longrightarrow>) bs bs' \<Longrightarrow> nrows (select_rows bs F) \<le> nrows (select_rows bs' F)"
  by (cases F) (simp_all add: nrows_select_rows length_keep_mono)

text \<open>
  Claim C7. For thresholds \<open>t1 \<le> t2\<close>, when \<^verbatim>\<open>remove_outliers\<close> returns a table at \<open>t1\<close>
  it returns one at \<open>t2\<close> with at least as many rows; when it raises at \<open>t1\<close> it raises
  the same exception at \<open>t2\<close>.
\<close>

theorem remove_outliers_threshold_monotone:
  assumes "t1 \<le> t2"
  shows "(\<forall>a. remove_outliers t1 df = Inr a \<longrightarrow>
            (\<exists>b. remove_outliers t2 df = Inr b \<and> nrows a \<le> nrows b))
       \<and> (\<forall>e. remove_outliers t1 df = Inl e \<longrightarrow> remove_outliers t2 df = Inl e)"
proof -
  let ?G = "getitems (select_dtypes Number df) df"
  let ?m = "\<lambda>t. all_axis1 (nrows df) (map (\<lambda>c. map (below t) (zscore (cells c))) ?G)"
  have mono: "list_all2 (\<longrightarrow>) (?m t1) (?m t2)"
    using flags_mono [OF assms] by (rule all_axis1_mono)
  show ?thesis
  proof (cases "list_ex (\<lambda>c. dtype c \<noteq> Number) ?G")
    case True
    then show ?thesis by (simp add: remove_outliers_def Let_def)
  next
    case False
    then have r: "remove_outliers t df = Inr (select_rows (?m t) df)" for t
      by (simp add: remove_outliers_def Let_def comp_def)
    have "nrows (select_rows (?m t1) df) \<le> nrows (select_rows (?m t2) df)"
      using mono by (rule nrows_select_rows_mono)
    then show ?thesis by (simp add: r)
  qed
qed

lemma keep_all: "length xs \<le> n \<Longrightarrow> keep (replicate n True) xs = xs"
proof (induction xs arbitrary: n)
  case Nil
  then show ?case by simp
next
  case (Cons x xs)
  then obtain k where "n = Suc k" by (cases n) auto
  with Cons show ?case by simp
qed

lemma select_rows_all: "rectangular F \<Longrightarrow> select_rows (replicate (nrows F) True) F = F"
proof -
  assume "rectangular F"
  then have "\<forall>c\<in>set F. length (cells c) = nrows F"
    by (simp add: rectangular_def list_all_iff)
  then have "map (\<lambda>c. c\<lparr>cells := keep (replicate (nrows F) True) (cells c)\<rparr>) F = map (\<lambda>c. c) F"
    by (intro map_cong) (simp_all add: keep_all)
  then show ?thesis by (simp add: select_rows_def)
qed

text \<open>
  Claim C10. A table without numeric columns is returned by \<^verbatim>\<open>remove_outliers\<close> with every
  row retained and unchanged, whatever the threshold: the test over no column holds for
  each row.
\<close>

theorem remove_outliers_without_numeric_columns:
  assumes "rectangular df" and "\<forall>c\<in>set df. dtype c \<noteq> Number"
  shows "remove_outliers t df = Inr df"
proof -
  from assms(2) have "filter (\<lambda>c. dtype c = Number) df = []"
    by (simp add: filter_empty_conv)
  then have "select_dtypes Number df = []" by (simp add: select_dtypes_def)
  then show ?thesis
    using assms(1) by (simp add: remove_outliers_def getitems_def all_axis1_def select_rows_all)
qed

lemma map2_conj_upt:
  "length c = n \<Longrightarrow> map2 (\<and>) c (map f [0..<n]) = map (\<lambda>i. c ! i \<and> f i) [0..<n]"
  by (rule nth_equalityI) simp_all

lemma all_axis1_upt:
  "(\<And>col. col \<in> set cols \<Longrightarrow> length col = n) \<Longrightarrow>
     all_axis1 n cols = map (\<lambda>i. \<forall>col\<in>set cols. col ! i) [0..<n]"
proof (induction cols)
  case Nil
  show ?case by (simp add: all_axis1_def map_replicate_trivial)
next
  case (Cons c cols)
  have "all_axis1 n (c # cols) = map2 (\<and>) c (all_axis1 n cols)"
    by (simp add: all_axis1_def)
  also have "\<dots> = map2 (\<and>) c (map (\<lambda>i. \<forall>col\<in>set cols. col ! i) [0..<n])"
    using Cons by simp
  also have "\<dots> = map (\<lambda>i. c ! i \<and> (\<forall>col\<in>set cols. col ! i)) [0..<n]"
    using Cons.prems by (intro map2_conj_upt) simp
  finally show ?case by simp
qed

lemma length_zscore: "length (zscore cs) = length cs"
proof (cases "list_all is_Num cs")
  case True
  have "length (numbers cs) = length cs" using True
  proof (induction cs)
    case Nil
    then show ?case by simp
  next
    case (Cons c cs)
    then show ?case by (cases c) simp_all
  qed
  with True show ?thesis by (simp add: zscore_def Let_def)
next
  case False
  then show ?thesis by (simp add: zscore_def)
qed

lemma numbers_map_Num: "numbers (map Num xs) = xs"
  by (induction xs) simp_all

lemma zscore_map_Num:
  "zscore (map Num xs) =
     map (\<lambda>x. if pstd xs = 0 then None else Some ((x - mean xs) / pstd xs)) xs"
  by (simp add: zscore_def numbers_map_Num list_all_iff Let_def)

lemma complete_numbers:
  assumes "list_all (cell_ok Number) cs" and "NA \<notin> set cs"
  shows "cs = map Num (numbers cs)"
proof -
  from assms(2) have "filter (\<lambda>x. x \<noteq> NA) cs = cs"
    by (auto simp: filter_id_conv)
  with present_numbers [OF assms(1)] show ?thesis by simp
qed

lemma below_zscore_nth:
  assumes "cs = map Num xs" and "i < length cs"
  shows "map (below t) (zscore cs) ! i =
           (pstd xs \<noteq> 0 \<and> \<bar>(xs ! i - mean xs) / pstd xs\<bar> < t)"
  using assms by (simp add: zscore_map_Num)

text \<open>
  What the code keeps. For a table whose numeric columns have no missing cell,
  \<^verbatim>\<open>remove_outliers\<close> returns the rows \<open>i\<close> for which, in every numeric column with values
  \<open>xs\<close>, the standard deviation is not 0 and the z-score \<open>(xs ! i - mean xs) / pstd xs\<close> is
  of absolute value strictly below the threshold; the rows come in their original order,
  and the default threshold is 3. A column of standard deviation 0 has the z-score \<open>NaN\<close>
  in every row, and no row passes.
\<close>

lemma remove_outliers_keeps_rows_below_threshold:
  assumes "valid_frame df" and "distinct (map label df)"
    and "\<forall>c\<in>set df. dtype c = Number \<longrightarrow> NA \<notin> set (cells c)"
  shows "\<exists>df'. remove_outliers t df = Inr df'
           \<and> map label df' = map label df
           \<and> rows_of df' =
               map (\<lambda>i. rows_of df ! i)
                 (filter
                   (\<lambda>i. \<forall>c\<in>set df. dtype c = Number \<longrightarrow>
                          (let xs = numbers (cells c)
                           in pstd xs \<noteq> 0 \<and> \<bar>(xs ! i - mean xs) / pstd xs\<bar> < t))
                   [0..<nrows df])
           \<and> (\<forall>c\<in>set df. dtype c = Number \<longrightarrow> cells c = map Num (numbers (cells c)))
           \<and> default_z_threshold = 3"
proof -
  let ?n = "nrows df"
  let ?G = "filter (\<lambda>c. dtype c = Number) df"
  let ?flags = "map (\<lambda>c. map (below t) (zscore (cells c))) ?G"
  let ?P = "\<lambda>i. \<forall>col\<in>set ?flags. col ! i"
  let ?Q = "\<lambda>i. \<forall>c\<in>set df. dtype c = Number \<longrightarrow>
                (let xs = numbers (cells c)
                 in pstd xs \<noteq> 0 \<and> \<bar>(xs ! i - mean xs) / pstd xs\<bar> < t)"
  from assms(1) have rect: "rectangular df" and typed: "well_typed df"
    by (simp_all add: valid_frame_def)
  have len: "length (cells c) = ?n" if "c \<in> set df" for c
    using rect that by (simp add: rectangular_def list_all_iff)
  have nums: "cells c = map Num (numbers (cells c))" if "c \<in> set df" "dtype c = Number" for c
  proof (rule complete_numbers)
    show "list_all (cell_ok Number) (cells c)"
      using well_typed_column [OF typed that(1)] that(2) by simp
    show "NA \<notin> set (cells c)" using assms(3) that by simp
  qed
  have sel: "getitems (select_dtypes Number df) df = ?G"
    using assms(2) by (rule getitems_numeric)
  have noerr: "\<not> list_ex (\<lambda>c. dtype c \<noteq> Number) ?G"
    by (simp add: list_ex_iff)
  have r: "remove_outliers t df = Inr (select_rows (all_axis1 ?n ?flags) df)"
    using noerr by (simp add: remove_outliers_def sel Let_def comp_def)
  have "all_axis1 ?n ?flags = map ?P [0..<?n]"
  proof (rule all_axis1_upt)
    fix col
    assume "col \<in> set ?flags"
    then obtain c where "c \<in> set df" and "col = map (below t) (zscore (cells c))" by auto
    then show "length col = ?n" by (simp add: length_zscore len)
  qed
  then have "rows_of (select_rows (all_axis1 ?n ?flags) df) = keep (map ?P [0..<?n]) (rows_of df)"
    by (simp add: rows_of_select_rows)
  also have "\<dots> = map (\<lambda>i. rows_of df ! i) (filter ?P [0..<?n])"
    using keep_map_upt [of ?P "rows_of df"] length_rows_of [OF rect] by simp
  also have "filter ?P [0..<?n] = filter ?Q [0..<?n]"
  proof (rule filter_cong [OF refl])
    fix i
    assume "i \<in> set [0..<?n]"
    then have i: "i < ?n" by simp
    have flag: "map (below t) (zscore (cells c)) ! i =
                  (let xs = numbers (cells c)
                   in pstd xs \<noteq> 0 \<and> \<bar>(xs ! i - mean xs) / pstd xs\<bar> < t)"
      if "c \<in> set df" "dtype c = Number" for c
      using below_zscore_nth [OF nums [OF that], of i t] i len [OF that(1)]
      by (simp add: Let_def)
    show "?P i = ?Q i"
    proof
      assume p: "?P i"
      show "?Q i"
      proof (intro ballI impI)
        fix c
        assume c: "c \<in> set df" "dtype c = Number"
        then have "map (below t) (zscore (cells c)) \<in> set ?flags" by simp
        with p have "map (below t) (zscore (cells c)) ! i" by blast
        with flag [OF c] show "let xs = numbers (cells c)
            in pstd xs \<noteq> 0 \<and> \<bar>(xs ! i - mean xs) / pstd xs\<bar> < t"
          by simp
      qed
    next
      assume q: "?Q i"
      show "?P i"
      proof
        fix col
        assume "col \<in> set ?flags"
        then obtain c where c: "c \<in> set df" "dtype c = Number"
          and col: "col = map (below t) (zscore (cells c))" by auto
        from q c have "let xs = numbers (cells c)
            in pstd xs \<noteq> 0 \<and> \<bar>(xs ! i - mean xs) / pstd xs\<bar> < t"
          by blast
        with flag [OF c] col show "col ! i" by simp
      qed
    qed
  qed
  finally have rows: "rows_of (select_rows (all_axis1 ?n ?flags) df) =
      map (\<lambda>i. rows_of df ! i) (filter ?Q [0..<?n])" .
  have "map label (select_rows (all_axis1 ?n ?flags) df) = map label df"
    by (rule map_label_select_rows)
  with r rows nums show ?thesis
    by (simp add: default_z_threshold_def)
qed

lemma pvariance_nonneg: "0 \<le> pvariance xs"
proof -
  have "0 \<le> sum_list (map (\<lambda>x. (x - mean xs)\<^sup>2) xs)"
    by (rule sum_list_nonneg) auto
  then show ?thesis by (simp add: pvariance_def mean_def [of "map f ys" for f ys])
qed

lemma pstd_zero_iff: "pstd xs = 0 \<longleftrightarrow> pvariance xs = 0"
  by (simp add: pstd_def)

lemma abs_ratio_sqrt_less:
  assumes "0 < v"
  shows "\<bar>d / sqrt v\<bar> < t \<longleftrightarrow> 0 < t \<and> d\<^sup>2 < t\<^sup>2 * v"
proof (cases "0 < t")
  case False
  then have "\<not> \<bar>d / sqrt v\<bar> < t" by (smt (verit) abs_ge_zero)
  with False show ?thesis by simp
next
  case True
  have s: "0 < sqrt v" using assms by simp
  have "\<bar>d / sqrt v\<bar> < t \<longleftrightarrow> \<bar>d\<bar> < t * sqrt v"
    using s by (simp add: pos_divide_less_eq)
  also have "\<bar>d\<bar> = sqrt (d\<^sup>2)" by simp
  also have "t * sqrt v = sqrt (t\<^sup>2 * v)"
    using True by (simp add: real_sqrt_mult)
  also have "sqrt (d\<^sup>2) < sqrt (t\<^sup>2 * v) \<longleftrightarrow> d\<^sup>2 < t\<^sup>2 * v"
    by (rule real_sqrt_less_iff)
  finally show ?thesis using True by simp
qed

lemma flags_numeric:
  assumes "list_all is_Num cs"
  shows "map (below t) (zscore cs) =
           (let xs = numbers cs
            in map (\<lambda>x. pvariance xs \<noteq> 0 \<and> 0 < t \<and> (x - mean xs)\<^sup>2 < t\<^sup>2 * pvariance xs) xs)"
proof (cases "pvariance (numbers cs) = 0")
  case True
  then show ?thesis using assms by (simp add: zscore_def Let_def pstd_zero_iff)
next
  case False
  with pvariance_nonneg [of "numbers cs"] have pos: "0 < pvariance (numbers cs)" by simp
  show ?thesis
    using assms False abs_ratio_sqrt_less [OF pos]
    by (simp add: zscore_def Let_def pstd_zero_iff) (simp add: pstd_def)
qed

lemma flags_missing: "\<not> list_all is_Num cs \<Longrightarrow> map (below t) (zscore cs) = map (\<lambda>c. False) cs"
  by (simp add: zscore_def)

lemma pvariance_constant: "\<forall>x\<in>set xs. x = k \<Longrightarrow> pvariance xs = 0"
proof -
  assume c: "\<forall>x\<in>set xs. x = k"
  then have xs: "xs = replicate (length xs) k"
    by (simp add: replicate_length_same)
  show ?thesis
  proof (cases "xs = []")
    case True
    then show ?thesis by (simp add: pvariance_def mean_def)
  next
    case False
    have "sum_list xs = real (length xs) * k"
      by (subst xs) (simp add: sum_list_replicate)
    with False have m: "mean xs = k" by (simp add: mean_def)
    have z: "map (\<lambda>x. (x - mean xs)\<^sup>2) xs = map (\<lambda>x. 0) xs"
      using c by (intro map_cong) (simp_all add: m)
    have "pvariance xs = mean (map (\<lambda>x. 0) xs)"
      unfolding pvariance_def z ..
    also have "\<dots> = 0" by (simp add: mean_def)
    finally show ?thesis .
  qed
qed

lemmas remove_outliers_eval =
  remove_outliers_def select_dtypes_def getitems_def getitem_def Let_def nrows_def
  all_axis1_def select_rows_def flags_numeric mean_def pvariance_def power2_eq_square

text \<open>
  Scenario 4 of the specification on the code: the z-score of 1000 among
  \<open>[10, 12, 11, 13, 1000]\<close> is below 2 (with five rows no z-score exceeds 2), so at the
  default threshold all five rows are kept.
\<close>

lemma remove_outliers_scenario4:
  "remove_outliers default_z_threshold scenario4 = Inr scenario4"
  by (simp add: scenario4_def default_z_threshold_def remove_outliers_eval)

text \<open>
  Claim C1 on the code. With the constant column of scenario 5 the result has no rows;
  the column \<open>[1, 3, 1, 3]\<close> alone loses no row, and beside the constant column
  \<open>[5, 5, 5, 5]\<close> it loses all four.
\<close>

theorem remove_outliers_constant_column_drops_all_rows:
  "remove_outliers default_z_threshold scenario5 =
     Inr [\<lparr>label = ''k'', dtype = Number, cells = []\<rparr>]
   \<and> remove_outliers default_z_threshold varying_table = Inr varying_table
   \<and> remove_outliers default_z_threshold constant_table =
       Inr [\<lparr>label = ''v'', dtype = Number, cells = []\<rparr>,
            \<lparr>label = ''k'', dtype = Number, cells = []\<rparr>]"
  by (simp add: scenario5_def varying_table_def constant_table_def default_z_threshold_def
      remove_outliers_eval)

lemma remove_outliers_outlier_table_2:
  "remove_outliers 2 outlier_table =
     Inr [\<lparr>label = ''v'', dtype = Number, cells = [Num 0, Num 0, Num 0, Num 0]\<rparr>,
          \<lparr>label = ''n'', dtype = Object, cells = [Str ''a'', Str ''b'', Str ''c'', Str ''d'']\<rparr>]"
  by (simp add: outlier_table_def remove_outliers_eval)

lemma remove_outliers_outlier_table_3:
  "remove_outliers 3 outlier_table = Inr outlier_table"
  by (simp add: outlier_table_def remove_outliers_eval)

lemma remove_outliers_text_table:
  "remove_outliers 3 text_table = Inr text_table"
  by (simp add: text_table_def remove_outliers_eval)

lemma upt_5: "[0..<5] = [0, 1, 2, 3, 4]"
  by code_simp

text \<open>
  At threshold 2 the row with z-score 2 goes and the four rows with z-score -1/2 stay.
\<close>

lemma remove_outliers_outlier_table_rows:
  "valid_frame outlier_table \<and> distinct (map label outlier_table)
   \<and> pstd [0, 0, 0, 0, 5] = 2 \<and> mean [0, 0, 0, 0, 5] = 1
   \<and> (\<exists>df'. remove_outliers 2 outlier_table = Inr df'
         \<and> rows_of df' =
             [[Num 0, Str ''a''], [Num 0, Str ''b''], [Num 0, Str ''c''], [Num 0, Str ''d'']])"
proof -
  have h1: "valid_frame outlier_table"
    by (simp add: outlier_table_def valid_frame_def rectangular_def well_typed_def nrows_def)
  have h2: "distinct (map label outlier_table)"
    by (simp add: outlier_table_def)
  have h3: "\<forall>c\<in>set outlier_table. dtype c = Number \<longrightarrow> NA \<notin> set (cells c)"
    by (simp add: outlier_table_def)
  have mn: "mean [0, 0, 0, 0, 5] = 1"
    by (simp add: mean_def)
  have "pvariance [0, 0, 0, 0, 5] = 4"
    by (simp add: pvariance_def mean_def power2_eq_square)
  then have sd: "pstd [0, 0, 0, 0, 5] = 2"
    by (simp add: pstd_def)
  have n: "nrows outlier_table = 5"
    by (simp add: outlier_table_def nrows_def)
  have rows: "rows_of outlier_table =
      [[Num 0, Str ''a''], [Num 0, Str ''b''], [Num 0, Str ''c''], [Num 0, Str ''d''],
       [Num 5, Str ''e'']]"
    by (simp add: outlier_table_def)
  have sel: "filter
       (\<lambda>i. \<forall>c\<in>set outlier_table. dtype c = Number \<longrightarrow>
              (let xs = numbers (cells c)
               in pstd xs \<noteq> 0 \<and> \<bar>(xs ! i - mean xs) / pstd xs\<bar> < 2))
       [0, 1, 2, 3, 4] = [0, 1, 2, 3]"
    by (simp add: outlier_table_def mn sd)
  from remove_outliers_keeps_rows_below_threshold [OF h1 h2 h3, of 2]
  obtain df' where r: "remove_outliers 2 outlier_table = Inr df'"
    and "rows_of df' =
           map (\<lambda>i. rows_of outlier_table ! i)
             (filter
               (\<lambda>i. \<forall>c\<in>set outlier_table. dtype c = Number \<longrightarrow>
                      (let xs = numbers (cells c)
                       in pstd xs \<noteq> 0 \<and> \<bar>(xs ! i - mean xs) / pstd xs\<bar> < 2))
               [0..<nrows outlier_table])"
    by blast
  then have "rows_of df' =
      [[Num 0, Str ''a''], [Num 0, Str ''b''], [Num 0, Str ''c''], [Num 0, Str ''d'']]"
    by (simp only: n upt_5 sel rows) simp
  with r h1 h2 sd mn show ?thesis by blast
qed

text \<open>
  Thresholds 2 and 3 on the same table: four rows and five rows.
\<close>

theorem remove_outliers_outlier_table_monotone:
  "(2::real) \<le> 3
   \<and> remove_outliers 2 outlier_table =
       Inr [\<lparr>label = ''v'', dtype = Number, cells = [Num 0, Num 0, Num 0, Num 0]\<rparr>,
            \<lparr>label = ''n'', dtype = Object,
               cells = [Str ''a'', Str ''b'', Str ''c'', Str ''d'']\<rparr>]
   \<and> remove_outliers 3 outlier_table = Inr outlier_table
   \<and> nrows [\<lparr>label = ''v'', dtype = Number, cells = [Num 0, Num 0, Num 0, Num 0]\<rparr>,
            \<lparr>label = ''n'', dtype = Object,
               cells = [Str ''a'', Str ''b'', Str ''c'', Str ''d'']\<rparr>]
       \<le> nrows outlier_table"
proof -
  have h: "(2::real) \<le> 3" by simp
  note t = remove_outliers_threshold_monotone [OF h, of outlier_table]
  from t remove_outliers_outlier_table_2 obtain b
    where "remove_outliers 3 outlier_table = Inr b"
      and "nrows [\<lparr>label = ''v'', dtype = Number, cells = [Num 0, Num 0, Num 0, Num 0]\<rparr>,
                  \<lparr>label = ''n'', dtype = Object,
                     cells = [Str ''a'', Str ''b'', Str ''c'', Str ''d'']\<rparr>] \<le> nrows b"
    by blast
  with remove_outliers_outlier_table_3 remove_outliers_outlier_table_2 h show ?thesis
    by simp
qed

text \<open>
  A table with a text and a datetime column comes back as it was.
\<close>

theorem remove_outliers_text_table_unchanged:
  "rectangular text_table \<and> list_all (\<lambda>c. dtype c \<noteq> Number) text_table
   \<and> remove_outliers 3 text_table = Inr text_table
   \<and> rows_of text_table = [[Str ''x'', Str ''2024-01-05''], [NA, NA], [Str ''y'', NA]]"
proof -
  have h1: "rectangular text_table"
    by (simp add: text_table_def rectangular_def nrows_def)
  have h2: "\<forall>c\<in>set text_table. dtype c \<noteq> Number"
    by (simp add: text_table_def)
  have "remove_outliers 3 text_table = Inr text_table"
    using h1 h2 by (rule remove_outliers_without_numeric_columns)
  moreover have "list_all (\<lambda>c. dtype c \<noteq> Number) text_table"
    by (simp add: text_table_def)
  moreover have "rows_of text_table = [[Str ''x'', Str ''2024-01-05''], [NA, NA], [Str ''y'', NA]]"
    by (simp add: text_table_def)
  ultimately show ?thesis using h1 by blast
qed

lemma all_axis1_false_column:
  "col \<in> set cols \<Longrightarrow> list_all Not col \<Longrightarrow> list_all Not (all_axis1 n cols)"
proof (induction cols)
  case Nil
  then show ?case by simp
next
  case (Cons c cols)
  have step: "all_axis1 n (c # cols) = map2 (\<and>) c (all_axis1 n cols)"
    by (simp add: all_axis1_def)
  show ?case
  proof (cases "col = c")
    case True
    with Cons.prems show ?thesis
      unfolding step by (auto simp: list_all_iff dest: set_zip_leftD)
  next
    case False
    with Cons have "list_all Not (all_axis1 n cols)" by simp
    then show ?thesis
      unfolding step by (auto simp: list_all_iff dest: set_zip_rightD)
  qed
qed

lemma keep_none: "list_all Not bs \<Longrightarrow> keep bs xs = []"
  by (induction bs xs rule: keep.induct) simp_all

lemma zscore_constant:
  assumes "\<forall>x\<in>set cs. x = Num k"
  shows "list_all Not (map (below t) (zscore cs))"
proof -
  have num: "list_all is_Num cs" using assms by (auto simp: list_all_iff)
  have "\<forall>x\<in>set (numbers cs). x = k" using assms
  proof (induction cs)
    case Nil
    then show ?case by simp
  next
    case (Cons c cs)
    then show ?case by (cases c) auto
  qed
  then have "pvariance (numbers cs) = 0" by (rule pvariance_constant)
  then show ?thesis using num by (simp add: flags_numeric Let_def list_all_iff)
qed

text \<open>
  In general: a numeric column whose cells are all the same number leaves no row,
  at any threshold.
\<close>

lemma remove_outliers_constant_column:
  assumes "c \<in> set df" and "dtype c = Number" and "\<forall>x\<in>set (cells c). x = Num k"
    and "remove_outliers t df = Inr df'"
  shows "nrows df' = 0"
proof -
  let ?G = "getitems (select_dtypes Number df) df"
  let ?flags = "map (\<lambda>c. map (below t) (zscore (cells c))) ?G"
  from assms(4) have r: "df' = select_rows (all_axis1 (nrows df) ?flags) df"
    using remove_outliers_cases [of t df] by auto
  have "c \<in> set ?G"
    using assms(1,2) by (auto simp: getitems_def select_dtypes_def getitem_def)
  then have "map (below t) (zscore (cells c)) \<in> set ?flags" by simp
  moreover have "list_all Not (map (below t) (zscore (cells c)))"
    using assms(3) by (rule zscore_constant)
  ultimately have "list_all Not (all_axis1 (nrows df) ?flags)"
    by (rule all_axis1_false_column)
  then have "keep (all_axis1 (nrows df) ?flags) xs = []" for xs :: "cell list"
    by (rule keep_none)
  then show ?thesis by (cases df) (simp_all add: r nrows_select_rows)
qed

text \<open>
  The same with the population formulas written out: \<open>mu\<close> is the sum of the column's
  values over their number, \<open>sigma\<close> the square root of the mean squared deviation.
\<close>

lemma remove_outliers_rows_by_population_formulas:
  assumes "valid_frame df" and "distinct (map label df)"
    and "\<forall>c\<in>set df. dtype c = Number \<longrightarrow> NA \<notin> set (cells c)"
  shows "\<exists>df'. remove_outliers t df = Inr df'
           \<and> rows_of df' =
               map (\<lambda>i. rows_of df ! i)
                 (filter
                   (\<lambda>i. \<forall>c\<in>set df. dtype c = Number \<longrightarrow>
                          (let xs = numbers (cells c);
                               mu = sum_list xs / real (length xs);
                               sigma = sqrt (sum_list (map (\<lambda>x. (x - mu)\<^sup>2) xs) / real (length xs))
                           in sigma \<noteq> 0 \<and> \<bar>(xs ! i - mu) / sigma\<bar> < t))
                   [0..<nrows df])"
  using remove_outliers_keeps_rows_below_threshold [OF assms, of t]
  unfolding pstd_def pvariance_def mean_def length_map Let_def by blast

text \<open>
  Claim C4 on the code. No numeric cell of the table is missing. Column \<open>v = [1, 3, 1, 3]\<close>
  has population mean 2 and population standard deviation 1, so every z-score of it has
  absolute value 1, strictly below the default threshold 3. Column \<open>k = [5, 5, 5, 5]\<close>
  has mean 5 and standard deviation 0: every value equals the mean, and the
  specification takes the z-score of such a column as 0. Every row meets the claim's
  condition in every numeric column, and \<^verbatim>\<open>remove_outliers\<close> returns no row. This is the
  missing case of a standard deviation of 0, the same as for claim C1; where no numeric
  column is constant, the rows kept are the rows the claim names.
\<close>

theorem remove_outliers_drops_rows_inside_the_threshold:
  "list_all (\<lambda>c. NA \<notin> set (cells c)) constant_table
   \<and> map (\<lambda>c. numbers (cells c)) constant_table = [[1, 3, 1, 3], [5, 5, 5, 5]]
   \<and> sum_list [1, 3, 1, 3] / 4 = (2::real)
   \<and> sqrt (sum_list (map (\<lambda>x. (x - 2)\<^sup>2) [1, 3, 1, 3]) / 4) = 1
   \<and> list_all (\<lambda>x. \<bar>(x - 2) / 1\<bar> < default_z_threshold) [1, 3, 1, 3]
   \<and> sum_list [5, 5, 5, 5] / 4 = (5::real)
   \<and> sqrt (sum_list (map (\<lambda>x. (x - 5)\<^sup>2) [5, 5, 5, 5]) / 4) = 0
   \<and> list_all (\<lambda>x. x - 5 = 0) [5, 5, 5, 5::real]
   \<and> remove_outliers default_z_threshold constant_table =
       Inr [\<lparr>label = ''v'', dtype = Number, cells = []\<rparr>,
            \<lparr>label = ''k'', dtype = Number, cells = []\<rparr>]"
proof -
  have 1: "list_all (\<lambda>c. NA \<notin> set (cells c)) constant_table"
    by (simp add: constant_table_def)
  have 2: "map (\<lambda>c. numbers (cells c)) constant_table = [[1, 3, 1, 3], [5, 5, 5, 5]]"
    by (simp add: constant_table_def)
  have 3: "sum_list [1, 3, 1, 3] / 4 = (2::real)" by simp
  have 4: "sqrt (sum_list (map (\<lambda>x. (x - 2)\<^sup>2) [1, 3, 1, 3]) / 4) = 1" by simp
  have 5: "list_all (\<lambda>x. \<bar>(x - 2) / 1\<bar> < default_z_threshold) [1, 3, 1, 3]"
    by (simp add: default_z_threshold_def)
  have 6: "sum_list [5, 5, 5, 5] / 4 = (5::real)" by simp
  have 7: "sqrt (sum_list (map (\<lambda>x. (x - 5)\<^sup>2) [5, 5, 5, 5]) / 4) = 0" by simp
  have 8: "list_all (\<lambda>x. x - 5 = 0) [5, 5, 5, 5::real]" by simp
  have 9: "remove_outliers default_z_threshold constant_table =
       Inr [\<lparr>label = ''v'', dtype = Number, cells = []\<rparr>,
            \<lparr>label = ''k'', dtype = Number, cells = []\<rparr>]"
    by (simp add: constant_table_def default_z_threshold_def remove_outliers_eval)
  from 1 2 3 4 5 6 7 8 9 show ?thesis by blast
qed

section \<open>Frame effects and the pipeline\<close>

lemma remove_outliers_select:
  "remove_outliers t df = Inr df' \<Longrightarrow> \<exists>bs. df' = select_rows bs df"
  using remove_outliers_cases [of t df] by auto

lemma fillna_NA: "fillna NA cs = cs"
  by (simp add: fillna_def map_idI)

lemma cells_imputed: "\<exists>v. cells (imputed c) = fillna v (cells c)"
proof (cases "dtype c")
  case Number
  then show ?thesis by (auto simp: cells_imputed_Number)
next
  case Object
  show ?thesis
  proof (cases "series_mode (cells c)")
    case Nil
    with Object have "imputed c = c"
      by (simp add: imputed_def filled_def mode_stat_def)
    then have "cells (imputed c) = fillna NA (cells c)" by (simp add: fillna_NA)
    then show ?thesis ..
  next
    case (Cons m rest)
    with Object show ?thesis by (auto simp: cells_imputed_Object)
  qed
next
  case Other
  then have "cells (imputed c) = fillna NA (cells c)"
    by (simp add: imputed_Other fillna_NA)
  then show ?thesis ..
qed

lemma fillna_keeps_present: "list_all2 (\<lambda>x x'. x \<noteq> NA \<longrightarrow> x' = x) cs (fillna v cs)"
  by (simp add: fillna_def list_all2_conv_all_nth)

lemma imputed_keeps_present:
  "list_all2 (\<lambda>x x'. x \<noteq> NA \<longrightarrow> x' = x) (cells c) (cells (imputed c))"
proof -
  from cells_imputed obtain v where "cells (imputed c) = fillna v (cells c)" ..
  then show ?thesis by (simp add: fillna_keeps_present)
qed

lemma map2_Cons_rel:
  assumes "list_all2 R xs ys" and "list_all2 (list_all2 R) rs rs'"
  shows "list_all2 (list_all2 R) (map2 (#) xs rs) (map2 (#) ys rs')"
proof (rule list_all2_all_nthI)
  show "length (map2 (#) xs rs) = length (map2 (#) ys rs')"
    using list_all2_lengthD [OF assms(1)] list_all2_lengthD [OF assms(2)] by simp
next
  fix n
  assume "n < length (map2 (#) xs rs)"
  then have n: "n < length xs" "n < length rs" by simp_all
  then have n': "n < length ys" "n < length rs'"
    using list_all2_lengthD [OF assms(1)] list_all2_lengthD [OF assms(2)] by simp_all
  have "R (xs ! n) (ys ! n)" using assms(1) n(1) by (rule list_all2_nthD)
  moreover have "list_all2 R (rs ! n) (rs' ! n)" using assms(2) n(2) by (rule list_all2_nthD)
  ultimately show "list_all2 R (map2 (#) xs rs ! n) (map2 (#) ys rs' ! n)"
    using n n' by simp
qed

lemma singletons_rel:
  assumes "list_all2 R xs ys"
  shows "list_all2 (list_all2 R) (map (\<lambda>x. [x]) xs) (map (\<lambda>x. [x]) ys)"
  using assms by (induction xs ys rule: list_all2_induct) simp_all

lemma rows_of_rel:
  "list_all2 (\<lambda>c c'. list_all2 R (cells c) (cells c')) F F' \<Longrightarrow>
     list_all2 (list_all2 R) (rows_of F) (rows_of F')"
proof (induction F F' rule: list_all2_induct)
  case Nil
  then show ?case by simp
next
  case (Cons c F c' F')
  show ?case
  proof (cases F)
    case Nil
    with Cons.hyps have "F' = []" by simp
    with Nil Cons.hyps(1) show ?thesis
      by (simp add: singletons_rel)
  next
    case F: (Cons d G)
    with Cons.hyps(2) obtain d' G' where F': "F' = d' # G'"
      by (cases F') auto
    from Cons.hyps(1) Cons.IH show ?thesis
      unfolding F F' by (simp add: map2_Cons_rel)
  qed
qed

lemma length_cells_imputed: "length (cells (imputed c)) = length (cells c)"
proof -
  from cells_imputed obtain v where "cells (imputed c) = fillna v (cells c)" ..
  then show ?thesis by (simp add: fillna_def)
qed

lemma nrows_map_imputed: "nrows (map imputed F) = nrows F"
  by (cases F) (simp_all add: nrows_def length_cells_imputed)

lemma map_label_strip_columns: "map label (strip_columns df) = map strip (map label df)"
  by (simp add: strip_columns_def)

lemma map_dtype_strip_columns: "map dtype (strip_columns df) = map dtype df"
  by (simp add: strip_columns_def)

lemma main_Inr:
  assumes "main df = Inr df'"
  shows "\<exists>df2 bs. handle_missing_values (remove_duplicates (strip_columns df)) = Inr df2
           \<and> df' = select_rows bs df2"
proof -
  from assms obtain df2
    where 1: "handle_missing_values (remove_duplicates (strip_columns df)) = Inr df2"
      and 2: "remove_outliers default_z_threshold df2 = Inr df'"
    by (auto simp: main_def Let_def split: sum.splits)
  from 2 obtain bs where "df' = select_rows bs df2"
    using remove_outliers_select by blast
  with 1 show ?thesis by blast
qed


lemma rows_of_upt:
  assumes "rectangular F"
  shows "rows_of F = map (\<lambda>i. map (\<lambda>c. cells c ! i) F) [0..<nrows F]"
proof (rule nth_equalityI)
  show "length (rows_of F) = length (map (\<lambda>i. map (\<lambda>c. cells c ! i) F) [0..<nrows F])"
    using length_rows_of [OF assms] by simp
next
  fix i
  assume "i < length (rows_of F)"
  then have "i < nrows F" using length_rows_of [OF assms] by simp
  then show "rows_of F ! i = map (\<lambda>i. map (\<lambda>c. cells c ! i) F) [0..<nrows F] ! i"
    using rows_of_nth [OF assms] by simp
qed

lemma column_from_rows:
  assumes "rectangular F" and "k < length F"
  shows "set (cells (F ! k)) = (\<lambda>r. r ! k) ` set (rows_of F)"
proof -
  have len: "length (cells (F ! k)) = nrows F"
    using assms by (simp add: rectangular_def list_all_iff)
  have "(\<lambda>r. r ! k) ` set (rows_of F) = (\<lambda>i. cells (F ! k) ! i) ` {0..<nrows F}"
    using assms(2) by (simp add: rows_of_upt [OF assms(1)] image_image)
  also have "\<dots> = set (cells (F ! k))"
    using len by (metis atLeast_upt map_nth set_map set_upt)
  finally show ?thesis by simp
qed

lemma length_select_rows: "length (select_rows bs F) = length F"
  by (simp add: select_rows_def)

lemma drop_duplicates_column_values:
  assumes "rectangular F" and "k < length F"
  shows "set (cells (drop_duplicates F ! k)) = set (cells (F ! k))"
proof -
  have r: "rectangular (drop_duplicates F)"
    using assms(1) by (simp add: drop_duplicates_def rectangular_select_rows)
  have k: "k < length (drop_duplicates F)"
    using assms(2) by (simp add: drop_duplicates_def length_select_rows)
  have "set (rows_of (drop_duplicates F)) = set (rows_of F)"
    by (simp add: drop_duplicates_def rows_of_select_rows duplicated_def set_keep_fresh)
  then show ?thesis
    by (simp add: column_from_rows [OF r k] column_from_rows [OF assms])
qed

lemma set_keep_subset: "set (keep bs xs) \<subseteq> set xs"
  by (induction bs xs rule: keep.induct) auto

lemma well_typed_select_rows: "well_typed F \<Longrightarrow> well_typed (select_rows bs F)"
  using set_keep_subset by (fastforce simp: well_typed_def select_rows_def list_all_iff)

lemma remove_outliers_returns:
  assumes "distinct (map label F)"
  shows "\<exists>F'. remove_outliers t F = Inr F'"
proof -
  have "getitems (select_dtypes Number F) F = filter (\<lambda>c. dtype c = Number) F"
    using assms by (rule getitems_numeric)
  then have "\<not> list_ex (\<lambda>c. dtype c \<noteq> Number) (getitems (select_dtypes Number F) F)"
    by (simp add: list_ex_iff)
  then show ?thesis using remove_outliers_cases [of t F] by auto
qed

lemma main_returns:
  assumes "valid_frame df" and "distinct (map strip (map label df))"
    and "\<forall>c\<in>set df. dtype c = Object \<longrightarrow> (\<exists>x\<in>set (cells c). x \<noteq> NA)"
  shows "\<exists>df'. main df = Inr df'"
proof -
  let ?D0 = "strip_columns df"
  let ?D1 = "remove_duplicates ?D0"
  from assms(1) have rect: "rectangular df" and typed: "well_typed df"
    by (simp_all add: valid_frame_def)
  have rect0: "rectangular ?D0"
    using rect by (cases df) (simp_all add: rectangular_def nrows_def strip_columns_def list_all_iff)
  have typed0: "well_typed ?D0"
    using typed by (simp add: well_typed_def strip_columns_def list_all_iff)
  have typed1: "well_typed ?D1"
    using typed0 by (simp add: remove_duplicates_def drop_duplicates_def well_typed_select_rows)
  have lab1: "map label ?D1 = map strip (map label df)"
    by (simp add: remove_duplicates_def drop_duplicates_def map_label_select_rows
        map_label_strip_columns)
  have dt1: "map dtype ?D1 = map dtype df"
    by (simp add: remove_duplicates_def drop_duplicates_def map_dtype_select_rows
        map_dtype_strip_columns)
  have len1: "length ?D1 = length df"
    using arg_cong [OF dt1, of length] by simp
  have obj1: "\<forall>c\<in>set ?D1. dtype c = Object \<longrightarrow> (\<exists>x\<in>set (cells c). x \<noteq> NA)"
  proof (intro ballI impI)
    fix c
    assume "c \<in> set ?D1" and d: "dtype c = Object"
    then obtain k where k: "k < length ?D1" and c: "c = ?D1 ! k"
      by (auto simp: in_set_conv_nth)
    from k len1 have k0: "k < length df" by simp
    then have k0': "k < length ?D0" by (simp add: strip_columns_def)
    have "dtype (df ! k) = dtype (?D1 ! k)"
      using arg_cong [OF dt1, of "\<lambda>xs. xs ! k"] k k0 by simp
    with d c have "dtype (df ! k) = Object" by simp
    with assms(3) k0 have "\<exists>x\<in>set (cells (df ! k)). x \<noteq> NA" by simp
    moreover have "cells (?D0 ! k) = cells (df ! k)"
      using k0 by (simp add: strip_columns_def)
    moreover have "set (cells (?D1 ! k)) = set (cells (?D0 ! k))"
      unfolding remove_duplicates_def using rect0 k0' by (rule drop_duplicates_column_values)
    ultimately show "\<exists>x\<in>set (cells c). x \<noteq> NA" using c by simp
  qed
  have dist1: "distinct (map label ?D1)" using assms(2) by (simp add: lab1)
  have 1: "handle_missing_values ?D1 = Inr (map imputed ?D1)"
    using typed1 dist1 obj1 by (rule handle_missing_values_returns)
  have "distinct (map label (map imputed ?D1))"
    using dist1 by (simp add: comp_def)
  from remove_outliers_returns [OF this, of default_z_threshold]
  obtain df' where "remove_outliers default_z_threshold (map imputed ?D1) = Inr df'" ..
  with 1 show ?thesis by (simp add: main_def Let_def)
qed


text \<open>
  Claim C9. \<^verbatim>\<open>remove_duplicates\<close> and \<^verbatim>\<open>remove_outliers\<close> return a subsequence of the
  rows: whole rows go, a surviving row keeps every value, and the labels and dtypes
  stay. \<^verbatim>\<open>handle_missing_values\<close> returns the same columns with the same number of cells
  in the same positions, and every cell that was not missing has its value: column by
  column and, read as rows, row by row.
\<close>

theorem cleaning_steps_change_only_missing_cells:
  "(subseq (rows_of (remove_duplicates df)) (rows_of df)
      \<and> map label (remove_duplicates df) = map label df
      \<and> map dtype (remove_duplicates df) = map dtype df)
   \<and> (\<forall>t df'. remove_outliers t df = Inr df' \<longrightarrow>
          subseq (rows_of df') (rows_of df)
          \<and> map label df' = map label df \<and> map dtype df' = map dtype df)
   \<and> (\<forall>df'. handle_missing_values df = Inr df' \<longrightarrow>
          list_all2
            (\<lambda>c c'. label c' = label c \<and> dtype c' = dtype c
               \<and> list_all2 (\<lambda>x x'. x \<noteq> NA \<longrightarrow> x' = x) (cells c) (cells c'))
            df df'
          \<and> nrows df' = nrows df
          \<and> list_all2 (list_all2 (\<lambda>x x'. x \<noteq> NA \<longrightarrow> x' = x)) (rows_of df) (rows_of df'))"
proof (intro conjI allI impI)
  show "subseq (rows_of (remove_duplicates df)) (rows_of df)"
    by (simp add: remove_duplicates_def drop_duplicates_def rows_of_select_rows subseq_keep)
  show "map label (remove_duplicates df) = map label df"
    by (simp add: remove_duplicates_def drop_duplicates_def map_label_select_rows)
  show "map dtype (remove_duplicates df) = map dtype df"
    by (simp add: remove_duplicates_def drop_duplicates_def map_dtype_select_rows)
next
  fix t df'
  assume "remove_outliers t df = Inr df'"
  then obtain bs where df': "df' = select_rows bs df"
    using remove_outliers_select by blast
  show "subseq (rows_of df') (rows_of df)"
    by (simp add: df' rows_of_select_rows subseq_keep)
  show "map label df' = map label df"
    by (simp add: df' map_label_select_rows)
  show "map dtype df' = map dtype df"
    by (simp add: df' map_dtype_select_rows)
next
  fix df'
  assume "handle_missing_values df = Inr df'"
  then have df': "df' = map imputed df" by (rule handle_missing_values_Inr(1))
  show cols: "list_all2
      (\<lambda>c c'. label c' = label c \<and> dtype c' = dtype c
         \<and> list_all2 (\<lambda>x x'. x \<noteq> NA \<longrightarrow> x' = x) (cells c) (cells c'))
      df df'"
    unfolding df' by (rule list_all2_all_nthI) (simp_all add: imputed_keeps_present)
  show "nrows df' = nrows df"
    by (simp add: df' nrows_map_imputed)
  have "list_all2 (\<lambda>c c'. list_all2 (\<lambda>x x'. x \<noteq> NA \<longrightarrow> x' = x) (cells c) (cells c')) df df'"
    using cols by (rule list_all2_mono) simp
  then show "list_all2 (list_all2 (\<lambda>x x'. x \<noteq> NA \<longrightarrow> x' = x)) (rows_of df) (rows_of df')"
    by (rule rows_of_rel)
qed


text \<open>
  Claim C8. When \<^verbatim>\<open>main\<close> completes, the labels of the table it saves are the labels of
  the table it read, each trimmed, in the same order, and the dtypes are the same;
  trimming changes the labels only in that way and none of the three steps changes them.
  \<^verbatim>\<open>main\<close> completes for every rectangular, well-typed table whose trimmed labels are
  distinct and whose text columns each have a value; when two numeric or text columns
  get the same trimmed label it raises and saves nothing.
\<close>

theorem main_keeps_the_columns:
  "(\<forall>df'. main df = Inr df' \<longrightarrow>
       map label df' = map strip (map label df) \<and> map dtype df' = map dtype df)
   \<and> map label (strip_columns df) = map strip (map label df)
   \<and> map label (remove_duplicates df) = map label df
   \<and> (\<forall>df'. handle_missing_values df = Inr df' \<longrightarrow> map label df' = map label df)
   \<and> (\<forall>t df'. remove_outliers t df = Inr df' \<longrightarrow> map label df' = map label df)
   \<and> (valid_frame df \<and> distinct (map strip (map label df))
        \<and> (\<forall>c\<in>set df. dtype c = Object \<longrightarrow> (\<exists>x\<in>set (cells c). x \<noteq> NA))
      \<longrightarrow> (\<exists>df'. main df = Inr df'))"
proof (intro conjI allI impI)
  fix df'
  assume "main df = Inr df'"
  from main_Inr [OF this] obtain df2 bs
    where 1: "handle_missing_values (remove_duplicates (strip_columns df)) = Inr df2"
      and 2: "df' = select_rows bs df2"
    by blast
  have df2: "df2 = map imputed (remove_duplicates (strip_columns df))"
    using 1 by (rule handle_missing_values_Inr(1))
  show "map label df' = map strip (map label df)"
    by (simp add: 2 df2 map_label_select_rows comp_def remove_duplicates_def
        drop_duplicates_def select_rows_def strip_columns_def)
  show "map dtype df' = map dtype df"
    by (simp add: 2 df2 map_dtype_select_rows comp_def remove_duplicates_def
        drop_duplicates_def select_rows_def strip_columns_def)
next
  show "map label (strip_columns df) = map strip (map label df)"
    by (rule map_label_strip_columns)
  show "map label (remove_duplicates df) = map label df"
    by (simp add: remove_duplicates_def drop_duplicates_def map_label_select_rows)
next
  fix df'
  assume "handle_missing_values df = Inr df'"
  then have "df' = map imputed df" by (rule handle_missing_values_Inr(1))
  then show "map label df' = map label df" by (simp add: comp_def)
next
  fix t df'
  assume "remove_outliers t df = Inr df'"
  then obtain bs where "df' = select_rows bs df"
    using remove_outliers_select by blast
  then show "map label df' = map label df" by (simp add: map_label_select_rows)
next
  assume "valid_frame df \<and> distinct (map strip (map label df))
        \<and> (\<forall>c\<in>set df. dtype c = Object \<longrightarrow> (\<exists>x\<in>set (cells c). x \<noteq> NA))"
  then show "\<exists>df'. main df = Inr df'"
    by (intro main_returns) simp_all
qed

lemma strip_raw_labels: "strip '' v '' = ''v''" "strip ''n  '' = ''n''"
  by (simp_all add: strip_def is_space_def)

lemma main_raw_table:
  "main raw_table =
     Inr [\<lparr>label = ''v'', dtype = Number,
            cells = [Num 0, Num 0, Num 0, Num 0, Num 5, Num 1]\<rparr>,
          \<lparr>label = ''n'', dtype = Object,
            cells = [Str ''a'', Str ''b'', Str ''c'', Str ''d'', Str ''e'', Str ''a'']\<rparr>]"
proof -
  let ?D0 = "[\<lparr>label = ''v'', dtype = Number,
                 cells = [Num 0, Num 0, Num 0, Num 0, Num 0, Num 5, NA]\<rparr>,
              \<lparr>label = ''n'', dtype = Object,
                 cells = [Str ''a'', Str ''a'', Str ''b'', Str ''c'', Str ''d'', Str ''e'', NA]\<rparr>]"
  let ?D1 = "[\<lparr>label = ''v'', dtype = Number,
                 cells = [Num 0, Num 0, Num 0, Num 0, Num 5, NA]\<rparr>,
              \<lparr>label = ''n'', dtype = Object,
                 cells = [Str ''a'', Str ''b'', Str ''c'', Str ''d'', Str ''e'', NA]\<rparr>]"
  let ?D2 = "[\<lparr>label = ''v'', dtype = Number,
                 cells = [Num 0, Num 0, Num 0, Num 0, Num 5, Num 1]\<rparr>,
              \<lparr>label = ''n'', dtype = Object,
                 cells = [Str ''a'', Str ''b'', Str ''c'', Str ''d'', Str ''e'', Str ''a'']\<rparr>]"
  have 0: "strip_columns raw_table = ?D0"
    by (simp add: raw_table_def strip_columns_def strip_raw_labels)
  have 1: "remove_duplicates ?D0 = ?D1"
    by (simp add: remove_duplicates_def drop_duplicates_def duplicated_def select_rows_def)
  have 2: "handle_missing_values ?D1 = Inr ?D2"
    by (simp add: handle_missing_values_def select_dtypes_def fill_mean_def fill_mode_def
        getitem_def series_mean_def mean_def series_mode_def fillna_def setitem_def)
  have 3: "remove_outliers default_z_threshold ?D2 = Inr ?D2"
    by (simp add: default_z_threshold_def remove_outliers_eval)
  show ?thesis by (simp add: main_def 0 1 2 3)
qed

text \<open>
  The raw table: the blanks around the two labels go, the repeated row goes, the last
  row is filled, and six rows are saved.
\<close>

theorem main_raw_table_columns:
  "map label raw_table = ['' v '', ''n  '']
   \<and> (\<exists>df'. main raw_table = Inr df' \<and> map label df' = [''v'', ''n''] \<and> nrows df' = 6)"
proof -
  from main_keeps_the_columns [of raw_table] main_raw_table
  have "map label
          [\<lparr>label = ''v'', dtype = Number,
             cells = [Num 0, Num 0, Num 0, Num 0, Num 5, Num 1]\<rparr>,
           \<lparr>label = ''n'', dtype = Object,
             cells = [Str ''a'', Str ''b'', Str ''c'', Str ''d'', Str ''e'', Str ''a'']\<rparr>]
        = map strip (map label raw_table)"
    by blast
  then have "map strip (map label raw_table) = [''v'', ''n'']" by simp
  moreover have "map label raw_table = ['' v '', ''n  '']" by (simp add: raw_table_def)
  ultimately show ?thesis using main_raw_table by (simp add: nrows_def)
qed

lemma handle_missing_values_raw_table:
  "handle_missing_values raw_table =
     Inr [\<lparr>label = '' v '', dtype = Number,
            cells = [Num 0, Num 0, Num 0, Num 0, Num 0, Num 5, Num (5 / 6)]\<rparr>,
          \<lparr>label = ''n  '', dtype = Object,
            cells = [Str ''a'', Str ''a'', Str ''b'', Str ''c'', Str ''d'', Str ''e'', Str ''a'']\<rparr>]"
  by (simp add: raw_table_def handle_missing_values_def select_dtypes_def fill_mean_def
      fill_mode_def getitem_def series_mean_def mean_def series_mode_def fillna_def setitem_def)

text \<open>
  The three steps on example tables.
\<close>

theorem cleaning_steps_on_examples:
  "subseq (rows_of (remove_duplicates raw_table)) (rows_of raw_table)
   \<and> (\<exists>df'. handle_missing_values raw_table = Inr df' \<and> nrows df' = 7
         \<and> list_all2 (list_all2 (\<lambda>x x'. x \<noteq> NA \<longrightarrow> x' = x)) (rows_of raw_table) (rows_of df'))
   \<and> (\<exists>df'. remove_outliers 2 outlier_table = Inr df' \<and> nrows df' = 4
         \<and> subseq (rows_of df') (rows_of outlier_table))"
proof -
  note t = cleaning_steps_change_only_missing_cells [of raw_table]
  note u = cleaning_steps_change_only_missing_cells [of outlier_table]
  have n: "nrows raw_table = 7" by (simp add: raw_table_def nrows_def)
  from t have 1: "subseq (rows_of (remove_duplicates raw_table)) (rows_of raw_table)"
    by blast
  from handle_missing_values_raw_table obtain df'
    where r: "handle_missing_values raw_table = Inr df'" by blast
  with t have "nrows df' = nrows raw_table"
    and "list_all2 (list_all2 (\<lambda>x x'. x \<noteq> NA \<longrightarrow> x' = x)) (rows_of raw_table) (rows_of df')"
    by blast+
  with r n have 2: "\<exists>df'. handle_missing_values raw_table = Inr df' \<and> nrows df' = 7
         \<and> list_all2 (list_all2 (\<lambda>x x'. x \<noteq> NA \<longrightarrow> x' = x)) (rows_of raw_table) (rows_of df')"
    by auto
  from remove_outliers_outlier_table_2 obtain df2
    where r2: "remove_outliers 2 outlier_table = Inr df2" and n2: "nrows df2 = 4"
    by (simp add: nrows_def)
  with u have "subseq (rows_of df2) (rows_of outlier_table)" by blast
  with r2 n2 have 3: "\<exists>df'. remove_outliers 2 outlier_table = Inr df' \<and> nrows df' = 4
         \<and> subseq (rows_of df') (rows_of outlier_table)"
    by blast
  from 1 2 3 show ?thesis by blast
qed

end
